theory Spec2Isabelle
  imports Complex_Main "HOL-Library.AList" "HOL-Library.Sublist"
begin

section \<open>Strings\<close>

text \<open>
  JavaScript strings are modelled as \<^typ>\<open>string\<close> restricted to what ASCII text needs:
  \<open>toLowerCase\<close> folds the letters A to Z, \<open>trim\<close> strips the ASCII white space
  characters (tab, line feed, vertical tab, form feed, carriage return, space), and
  \<open>includes\<close> (here \<open>includesStr\<close>) is plain substring containment.
\<close>

definition lowerChar :: "char \<Rightarrow> char" where
  "lowerChar c =
     (case map_of (zip ''ABCDEFGHIJKLMNOPQRSTUVWXYZ'' ''abcdefghijklmnopqrstuvwxyz'') c of
        Some l \<Rightarrow> l
      | None \<Rightarrow> c)"

definition toLowerCase :: "string \<Rightarrow> string" where
  "toLowerCase s = map lowerChar s"

definition isSpace :: "char \<Rightarrow> bool" where
  "isSpace c = (c \<in> set [CHR 0x09, CHR 0x0A, CHR 0x0B, CHR 0x0C, CHR 0x0D, CHR '' ''])"

definition trim :: "string \<Rightarrow> string" where
  "trim s = rev (dropWhile isSpace (rev (dropWhile isSpace s)))"

fun startsWith :: "string \<Rightarrow> string \<Rightarrow> bool" where
  "startsWith s [] = True"
| "startsWith [] (k # ks) = False"
| "startsWith (c # cs) (k # ks) = (c = k \<and> startsWith cs ks)"

fun includesStr :: "string \<Rightarrow> string \<Rightarrow> bool" where
  "includesStr [] k = (k = [])"
| "includesStr (c # cs) k = (startsWith (c # cs) k \<or> includesStr cs k)"

section \<open>GameDatabase: user id derivation\<close>

text \<open>
  \<open>_generateUserId\<close>:
  \<^verbatim>\<open>name.toLowerCase().trim().replace(/[^a-z0-9_]/g, '_').replace(/_{2,}/g, '_')\<close>.
  \<open>replaceOutside\<close> is the first replacement, character by character;
  \<open>collapseUnderscores\<close> is the second: where two underscores start, the whole run is
  consumed and one underscore is written.
\<close>

definition idChar :: "char \<Rightarrow> bool" where
  "idChar c = (c \<in> set ''abcdefghijklmnopqrstuvwxyz0123456789_'')"

definition replaceOutside :: "string \<Rightarrow> string" where
  "replaceOutside s = map (\<lambda>c. if idChar c then c else CHR ''_'') s"

function collapseUnderscores :: "string \<Rightarrow> string" where
  "collapseUnderscores [] = []"
| "collapseUnderscores (c # cs) =
     (if c = CHR ''_'' \<and> startsWith cs ''_''
      then CHR ''_'' # collapseUnderscores (dropWhile (\<lambda>x. x = CHR ''_'') cs)
      else c # collapseUnderscores cs)"
  by pat_completeness auto
termination
  by (relation "measure length") (auto simp: length_dropWhile_le less_Suc_eq_le)

definition generateUserId :: "string \<Rightarrow> string" where
  "generateUserId name = collapseUnderscores (replaceOutside (trim (toLowerCase name)))"

section \<open>GameDatabase: the persistence document\<close>

text \<open>
  The document kept under \<open>DB_KEY\<close> in local storage. The store is
  \<open>None\<close> while the key is absent. Field names follow the source; a field whose name
  occurs in two objects carries the object's name as a prefix. \<open>Date.now()\<close> is the
  parameter \<open>now\<close> of every operation that reads the clock. Writes to local
  storage are taken to succeed.
\<close>

record preferences =
  soundEnabled :: bool
  musicEnabled :: bool
  notifications :: bool

record solved_case =
  sc_caseId :: "string option"
  sc_title :: string
  solvedAt :: int
  accuracy :: int
  timeTaken :: int
  score :: int

record user =
  user_id :: string
  user_name :: string
  xp :: int
  rankIndex :: nat
  user_language :: string
  solvedCases :: "solved_case list"
  user_currentCase :: "string option"
  playTime :: int
  achievements :: "string list"
  preferences :: preferences
  createdAt :: int
  lastLogin :: int
  loginCount :: "nat option"
  user_lastUpdated :: "int option"

record settings =
  autoSave :: bool
  backupEnabled :: bool
  lastBackup :: "int option"

record statistics =
  totalUsers :: nat
  totalCasesSolved :: nat
  totalPlayTime :: int
  stats_lastUpdated :: int

record database =
  version :: nat
  users :: "(string \<times> user) list"
  lastUser :: "string option"
  settings :: settings
  statistics :: statistics
  db_lastUpdated :: "int option"

type_synonym store = "database option"

definition VERSION :: nat where
  "VERSION = 2"

definition save :: "int \<Rightarrow> database \<Rightarrow> database" where
  "save now data = data\<lparr>version := VERSION, db_lastUpdated := Some now\<rparr>"

definition freshDB :: "int \<Rightarrow> database" where
  "freshDB now =
     \<lparr>version = VERSION, users = [], lastUser = None,
      settings = \<lparr>autoSave = True, backupEnabled = False, lastBackup = None\<rparr>,
      statistics = \<lparr>totalUsers = 0, totalCasesSolved = 0, totalPlayTime = 0,
                    stats_lastUpdated = now\<rparr>,
      db_lastUpdated = None\<rparr>"

text \<open>
  \<open>getDB\<close>: a missing item is initialised by \<open>init\<close> (a fresh document is saved)
  and read back. The result is the parsed copy together with the store.
\<close>

definition getDB :: "int \<Rightarrow> store \<Rightarrow> database \<times> store" where
  "getDB now store =
     (case store of
        None \<Rightarrow> (save now (freshDB now), Some (save now (freshDB now)))
      | Some data \<Rightarrow> (data, Some data))"

text \<open>
  Reading a property of a plain object, as \<open>db.users[id]\<close> does: an own property
  first, then what every plain object inherits from \<open>Object.prototype\<close>. The
  inherited values are functions (an object for \<open>__proto__\<close>): neither a record nor
  a number, and all of them count as true.
\<close>

definition inheritedNames :: "string list" where
  "inheritedNames =
     [''constructor'', ''hasOwnProperty'', ''isPrototypeOf'', ''propertyIsEnumerable'',
      ''toLocaleString'', ''toString'', ''valueOf'', ''__proto__'', ''__defineGetter__'',
      ''__defineSetter__'', ''__lookupGetter__'', ''__lookupSetter__'']"

datatype 'a property = Own 'a | Inherited | Missing

definition readProperty :: "(string \<times> 'a) list \<Rightarrow> string \<Rightarrow> 'a property" where
  "readProperty obj key =
     (case map_of obj key of
        Some v \<Rightarrow> Own v
      | None \<Rightarrow> if key \<in> set inheritedNames then Inherited else Missing)"

definition countKeys :: "(string \<times> 'a) list \<Rightarrow> nat" where
  "countKeys kvs = length (remdups (map fst kvs))"

text \<open>
  \<open>createUser(name)\<close>, with \<open>initialData\<close> empty as at its only call. The result
  \<open>None\<close> is the source's \<open>null\<close> after the caught "User already exists", which
  is thrown whenever \<open>db.users[id]\<close> is true: for a stored record and for an inherited
  property alike.
\<close>

definition newUser :: "int \<Rightarrow> string \<Rightarrow> string \<Rightarrow> user" where
  "newUser now ident name =
     \<lparr>user_id = ident, user_name = trim name, xp = 0, rankIndex = 0,
      user_language = ''en'', solvedCases = [], user_currentCase = None, playTime = 0,
      achievements = [],
      preferences = \<lparr>soundEnabled = True, musicEnabled = False, notifications = True\<rparr>,
      createdAt = now, lastLogin = now, loginCount = None, user_lastUpdated = None\<rparr>"

definition createUser :: "int \<Rightarrow> string \<Rightarrow> store \<Rightarrow> user option \<times> store" where
  "createUser now name store =
     (let (db, store1) = getDB now store;
          ident = generateUserId name
      in if readProperty (users db) ident \<noteq> Missing then (None, store1)
         else
           let u = newUser now ident name;
               users' = AList.update ident u (users db);
               db' = db\<lparr>users := users',
                        statistics := (statistics db)\<lparr>totalUsers := countKeys users'\<rparr>\<rparr>
           in (Some u, Some (save now db')))"

text \<open>\<open>getUser(userId)\<close>: \<open>db.users[userId] || null\<close>, with \<open>Missing\<close> for \<open>null\<close>.\<close>

definition getUser :: "int \<Rightarrow> string \<Rightarrow> store \<Rightarrow> user property \<times> store" where
  "getUser now userId store =
     (let (db, store1) = getDB now store in (readProperty (users db) userId, store1))"

text \<open>
  \<open>updateUser(userId, updates)\<close>. Every caller passes a whole user object as
  \<open>updates\<close>; \<open>Object.assign\<close> copies each property it has, after \<open>id\<close> and
  \<open>createdAt\<close> were deleted from the copy, so the stored record keeps its own
  \<open>id\<close> and \<open>createdAt\<close>, and its own value of an optional property that
  \<open>updates\<close> lacks. Under an inherited name the properties are assigned to the
  built-in object, which is not part of the document: for a built-in function the
  assignment of \<open>name\<close>, which a function does not let one write, ends in the caught
  \<open>TypeError\<close> before anything is saved; for \<open>__proto__\<close> the document is saved as
  read (what the assignment leaves on the shared prototype is not followed further).
  The result is the object that the source returns, \<open>Missing\<close> for \<open>null\<close>.
\<close>

definition assignUpdates :: "user \<Rightarrow> user \<Rightarrow> user" where
  "assignUpdates stored updates =
     updates\<lparr>user_id := user_id stored, createdAt := createdAt stored,
             loginCount := (case loginCount updates of None \<Rightarrow> loginCount stored
                            | Some n \<Rightarrow> Some n),
             user_lastUpdated := (case user_lastUpdated updates of
                                    None \<Rightarrow> user_lastUpdated stored
                                  | Some t \<Rightarrow> Some t)\<rparr>"

definition updateUser :: "int \<Rightarrow> string \<Rightarrow> user \<Rightarrow> store \<Rightarrow> user property \<times> store" where
  "updateUser now userId updates store =
     (let (db, store1) = getDB now store in
      case readProperty (users db) userId of
        Missing \<Rightarrow> (Missing, store1)
      | Inherited \<Rightarrow>
          if userId = ''__proto__'' then (Inherited, Some (save now db)) else (Missing, store1)
      | Own stored \<Rightarrow>
          let u = (assignUpdates stored updates)\<lparr>user_lastUpdated := Some now\<rparr>;
              db' = db\<lparr>users := AList.update userId u (users db)\<rparr>
          in (Own u, Some (save now db')))"

text \<open>
  \<open>login(name)\<close>. The document \<open>db\<close> is read before \<open>createUser\<close> runs;
  \<open>createUser\<close> reads and saves its own copy, and \<open>login\<close> then saves \<open>db\<close>.
  When the id names an inherited property, that built-in object is taken for the user:
  the login stamps are assigned to it, \<open>lastUser\<close> is set and the built-in object is
  returned. \<open>Missing\<close> is the source's \<open>null\<close>.
\<close>

definition bumpLogin :: "int \<Rightarrow> user \<Rightarrow> user" where
  "bumpLogin now u =
     u\<lparr>lastLogin := now,
       loginCount := Some ((case loginCount u of None \<Rightarrow> 0 | Some n \<Rightarrow> n) + 1)\<rparr>"

definition login :: "int \<Rightarrow> string \<Rightarrow> store \<Rightarrow> user property \<times> store" where
  "login now name store =
     (let (db, store1) = getDB now store;
          ident = generateUserId name
      in case readProperty (users db) ident of
           Own stored \<Rightarrow>
             let u = bumpLogin now stored;
                 db' = db\<lparr>users := AList.update ident u (users db), lastUser := Some ident\<rparr>
             in (Own u, Some (save now db'))
         | Inherited \<Rightarrow> (Inherited, Some (save now (db\<lparr>lastUser := Some ident\<rparr>)))
         | Missing \<Rightarrow>
             (case createUser now name store1 of
                (None, store2) \<Rightarrow> (Missing, store2)
              | (Some created, store2) \<Rightarrow>
                  let u = bumpLogin now created;
                      db' = db\<lparr>lastUser := Some ident\<rparr>
                  in (Own u, Some (save now db'))))"

text \<open>
  \<open>addSolvedCase(userId, caseData)\<close>. \<open>a || b\<close> takes \<open>b\<close> when \<open>a\<close> is
  undefined, the empty string or zero. The document read for the statistics is
  incremented and dropped; \<open>updateUser\<close> reads the store again. Under an inherited
  name \<open>user.solvedCases\<close> is undefined on the built-in object as the browser provides
  it, and the \<open>push\<close> ends in the caught \<open>TypeError\<close>.
\<close>

record case_result =
  cr_id :: "string option"
  cr_caseId :: "string option"
  cr_title :: "string option"
  cr_accuracy :: "int option"
  cr_timeTaken :: "int option"
  cr_score :: "int option"

definition orString :: "string option \<Rightarrow> string \<Rightarrow> string" where
  "orString a d = (case a of None \<Rightarrow> d | Some v \<Rightarrow> if v = [] then d else v)"

definition orNumber :: "int option \<Rightarrow> int \<Rightarrow> int" where
  "orNumber a d = (case a of None \<Rightarrow> d | Some v \<Rightarrow> if v = 0 then d else v)"

definition solvedCaseOf :: "int \<Rightarrow> case_result \<Rightarrow> solved_case" where
  "solvedCaseOf now caseData =
     \<lparr>sc_caseId = (case cr_id caseData of
                  Some v \<Rightarrow> if v = [] then cr_caseId caseData else Some v
                | None \<Rightarrow> cr_caseId caseData),
      sc_title = orString (cr_title caseData) ''Unknown Case'',
      solvedAt = now,
      accuracy = orNumber (cr_accuracy caseData) 100,
      timeTaken = orNumber (cr_timeTaken caseData) 0,
      score = orNumber (cr_score caseData) 0\<rparr>"

definition addSolvedCase :: "int \<Rightarrow> string \<Rightarrow> case_result \<Rightarrow> store \<Rightarrow> bool \<times> store" where
  "addSolvedCase now userId caseData store =
     (case getUser now userId store of
        (Missing, store1) \<Rightarrow> (False, store1)
      | (Inherited, store1) \<Rightarrow> (False, store1)
      | (Own u, store1) \<Rightarrow>
          let u' = u\<lparr>solvedCases := solvedCases u @ [solvedCaseOf now caseData]\<rparr>;
              (db, store2) = getDB now store1;
              dropped = db\<lparr>statistics := (statistics db)
                           \<lparr>totalCasesSolved := totalCasesSolved (statistics db) + 1\<rparr>\<rparr>;
              (r, store3) = updateUser now userId u' store2
          in (r \<noteq> Missing, store3))"

section \<open>PlayerStats\<close>

text \<open>The thresholds of the \<open>RANKS\<close> table, in the table's order.\<close>

definition RANKS :: "int list" where
  "RANKS = [0, 100, 300, 600, 1000, 2000]"

text \<open>The rank loop of \<open>addXP\<close>: every satisfied threshold overwrites \<open>newIndex\<close>.\<close>

definition rankLoop :: "int list \<Rightarrow> int \<Rightarrow> nat" where
  "rankLoop ranks points =
     fold (\<lambda>i newIndex. if points \<ge> ranks ! i then i else newIndex) [0..<length ranks] 0"

text \<open>
  \<open>addXP(amount)\<close> on \<open>state.user\<close>, a profile or nothing, and the store. The
  boolean is whether \<open>showRankUpModal\<close> was called.
\<close>

definition addXP :: "int \<Rightarrow> int \<Rightarrow> user option \<times> store \<Rightarrow> (user option \<times> store) \<times> bool" where
  "addXP now amount us =
     (case us of
        (None, store) \<Rightarrow> ((None, store), False)
      | (Some u, store) \<Rightarrow>
          let oldRankIndex = rankIndex u;
              u1 = u\<lparr>xp := xp u + amount\<rparr>;
              u2 = u1\<lparr>rankIndex := rankLoop RANKS (xp u1)\<rparr>;
              (r, store1) = updateUser now (user_id u2) u2 store
          in ((Some u2, store1), rankIndex u2 > oldRankIndex))"

section \<open>Cases and the session state\<close>

text \<open>
  A case as the handlers read it. The fields that are only rendered (theme, narrative,
  summary, victim, cause, location, time, solution, image) are left out.
\<close>

record suspect =
  suspect_id :: string
  suspect_name :: string
  persona :: string
  alibi :: string
  motive :: string
  relationship :: string
  suspect_evidence :: string
  generic :: "string list option"

record evidence_bundle =
  initial :: "string list"
  bodySearch :: "string list"
  roomSearch :: "string list"
  labClue :: string
  smokingGun :: string

record case_data =
  case_id :: string
  title :: string
  suspects :: "suspect list"
  evidence :: evidence_bundle
  killerId :: string
  motiveText :: string
  motiveKeywords :: "string list"

text \<open>
  The texts of notes and chat messages are kept as constructors, one for each template
  of the source. A suspect's reply is \<open>None\<close> when the script yields \<open>undefined\<close>.
\<close>

datatype message =
    CaseOpened string int
  | InterrogationStarted string
  | GameOver
  | NoNewEvidence
  | EvidenceLogged string string
  | AnalyzingSample
  | LabReportReceived
  | Question string
  | Reply "string option"
  | CaseSolved
  | CaseFailed

record note_entry =
  note_type :: string
  note_text :: message
  speaker :: "string option"

text \<open>
  A question whose reply is awaited: \<open>handleUserMessage\<close> holds the suspect it looked
  up and the trimmed text, and \<open>getSuspectResponse\<close> has already chosen between the
  remote model and the script.
\<close>

text \<open>
  What \<open>state.responseIndex\<close> holds under a suspect's id: a count, or the string that
  \<open>index + 1\<close> yields when \<open>index\<close> is not a number.
\<close>

datatype cursor = Count nat | Spliced

record pending_reply =
  asked_suspect :: "suspect option"
  asked_text :: string
  asked_remote :: bool

text \<open>
  The \<open>state\<close> object. \<open>labTimers\<close> counts the lab completions scheduled with
  \<open>setTimeout\<close> that have not run yet, and \<open>pendingReplies\<close> holds the questions
  whose reply has not arrived; both belong to the event loop rather than to the object.
\<close>

record state =
  currentCase :: "case_data option"
  actionPoints :: int
  selectedSuspectId :: "string option"
  chatHistory :: "(string \<times> message) list"
  evidenceFound :: "string list"
  investigationNotes :: "note_entry list"
  labReady :: bool
  labProcessing :: bool
  responseIndex :: "(string \<times> cursor) list"
  activeCases :: "case_data list"
  user :: "user option"
  language :: string
  apiKey :: "string option"
  labTimers :: nat
  pendingReplies :: "pending_reply list"

text \<open>
  A handler either returns or stops at an uncaught \<open>TypeError\<close> (a property read on
  \<open>null\<close> or \<open>undefined\<close>); either way the state is the one it has written so far.
\<close>

datatype 'a result = Returned 'a | Threw 'a

fun stateOf :: "'a result \<Rightarrow> 'a" where
  "stateOf (Returned s) = s"
| "stateOf (Threw s) = s"

definition falsy :: "string option \<Rightarrow> bool" where
  "falsy v = (v = None \<or> v = Some [])"

section \<open>Notes and messages\<close>

definition addNote :: "string \<Rightarrow> message \<Rightarrow> string option \<Rightarrow> state \<Rightarrow> state" where
  "addNote ty text who s =
     s\<lparr>investigationNotes :=
         investigationNotes s @ [\<lparr>note_type = ty, note_text = text, speaker = who\<rparr>]\<rparr>"

definition selectedSuspect :: "state \<Rightarrow> suspect option" where
  "selectedSuspect s =
     (case currentCase s of
        None \<Rightarrow> None
      | Some c \<Rightarrow> find (\<lambda>x. Some (suspect_id x) = selectedSuspectId s) (suspects c))"

definition addMessage :: "string \<Rightarrow> message \<Rightarrow> state \<Rightarrow> state" where
  "addMessage author text s =
     (let s1 = s\<lparr>chatHistory := chatHistory s @ [(author, text)]\<rparr> in
      if author = ''system'' then addNote ''system'' text None s1
      else if author = ''suspect'' then
        addNote ''interrogation'' text
          (Some (case selectedSuspect s1 of
                   None \<Rightarrow> ''Suspect''
                 | Some x \<Rightarrow> if suspect_name x = [] then ''Suspect'' else suspect_name x)) s1
      else if author = ''user'' then addNote ''interrogation'' text (Some ''Detective'') s1
      else s1)"

definition updateActionPoints :: "state \<Rightarrow> state" where
  "updateActionPoints s = (if actionPoints s = 0 then addMessage ''system'' GameOver s else s)"

section \<open>The scripted responder\<close>

text \<open>
  \<open>state.responseIndex[suspect.id] ?? 0\<close> as a number, when it is one: a stored count,
  or 0 when the object has no such property. An inherited property and a stored string
  are not numbers: \<open>index % length\<close> is then \<open>NaN\<close> and the line is undefined.
\<close>

definition indexNumber :: "(string \<times> cursor) list \<Rightarrow> string \<Rightarrow> nat option" where
  "indexNumber obj key =
     (case readProperty obj key of
        Own (Count i) \<Rightarrow> Some i
      | Own Spliced \<Rightarrow> None
      | Inherited \<Rightarrow> None
      | Missing \<Rightarrow> Some 0)"

text \<open>
  \<open>state.responseIndex[suspect.id] = index + 1\<close>. Assigning a number or a string to
  \<open>__proto__\<close> on an object that has no own property of that name changes nothing.
\<close>

definition assignCursor :: "string \<Rightarrow> cursor \<Rightarrow> (string \<times> cursor) list \<Rightarrow> (string \<times> cursor) list" where
  "assignCursor key v obj =
     (if key = ''__proto__'' \<and> map_of obj key = None then obj else AList.update key v obj)"

text \<open>
  \<open>getScriptedResponse(suspect, text)\<close>. The four keyword tests return before the
  cursor is read. The fallback reads the cursor, chooses the line and assigns
  \<open>index + 1\<close> whatever the line was. The reply \<open>None\<close> is \<open>undefined\<close>: the entry of
  a list at \<open>NaN\<close>.
\<close>

definition getScriptedResponse :: "suspect \<Rightarrow> string \<Rightarrow> state \<Rightarrow> string option \<times> state" where
  "getScriptedResponse sus text s =
     (let lower = toLowerCase text in
      if includesStr lower ''alibi'' \<or> includesStr lower ''where'' \<or> includesStr lower ''time''
      then (Some (alibi sus), s)
      else if includesStr lower ''motive'' \<or> includesStr lower ''why''
      then (Some (motive sus), s)
      else if includesStr lower ''relationship'' \<or> includesStr lower ''victim''
      then (Some (relationship sus), s)
      else if includesStr lower ''evidence'' \<or> includesStr lower ''clue''
      then (Some (suspect_evidence sus), s)
      else
        let index = indexNumber (responseIndex s) (suspect_id sus);
            line = (case generic sus of
                      None \<Rightarrow> Some ''I have nothing to say.''
                    | Some g \<Rightarrow>
                        (case index of
                           None \<Rightarrow> None
                         | Some i \<Rightarrow> if g = [] then None else Some (g ! (i mod length g))));
            following = (case index of None \<Rightarrow> Spliced | Some i \<Rightarrow> Count (i + 1))
        in (line, s\<lparr>responseIndex := assignCursor (suspect_id sus) following (responseIndex s)\<rparr>))"

section \<open>Session handlers\<close>

definition setSystemIntro :: "case_data \<Rightarrow> state \<Rightarrow> state" where
  "setSystemIntro caseData s =
     addNote ''system'' (CaseOpened (title caseData) (actionPoints s)) None
       (s\<lparr>investigationNotes := []\<rparr>)"

text \<open>
  \<open>startCase(caseId)\<close>. When no active case has the id, \<open>caseData\<close> is undefined and
  the read of \<open>caseData.evidence\<close> throws after four assignments.
\<close>

definition startCase :: "string \<Rightarrow> state \<Rightarrow> state result" where
  "startCase caseId s =
     (let caseData = find (\<lambda>item. case_id item = caseId) (activeCases s);
          s1 = s\<lparr>currentCase := caseData, actionPoints := 20, selectedSuspectId := None,
                 chatHistory := []\<rparr>
      in case caseData of
           None \<Rightarrow> Threw s1
         | Some c \<Rightarrow>
             Returned (setSystemIntro c
               (s1\<lparr>evidenceFound := initial (evidence c), labReady := True,
                    labProcessing := False, responseIndex := []\<rparr>)))"

definition selectSuspect :: "string \<Rightarrow> state \<Rightarrow> state result" where
  "selectSuspect suspectId s =
     (let s1 = s\<lparr>selectedSuspectId := Some suspectId\<rparr> in
      case currentCase s1 of
        None \<Rightarrow> Threw s1
      | Some c \<Rightarrow>
          (case find (\<lambda>item. suspect_id item = suspectId) (suspects c) of
             None \<Rightarrow> Threw s1
           | Some sus \<Rightarrow>
               Returned (updateActionPoints
                 (addNote ''system'' (InterrogationStarted (suspect_name sus)) None s1))))"

text \<open>
  \<open>handleUserMessage\<close> up to its \<open>await\<close>; \<open>input\<close> is the value of the text box.
  The reply is delivered later by \<open>deliverReply\<close>.
\<close>

definition handleUserMessage :: "string \<Rightarrow> state \<Rightarrow> state result" where
  "handleUserMessage input s =
     (if falsy (selectedSuspectId s) \<or> actionPoints s \<le> 0 then Returned s
      else
        let text = trim input in
        if text = [] then Returned s
        else
          let s1 = updateActionPoints (s\<lparr>actionPoints := actionPoints s - 1\<rparr>) in
          case currentCase s1 of
            None \<Rightarrow> Threw s1
          | Some c \<Rightarrow>
              Returned (s1\<lparr>pendingReplies := pendingReplies s1 @
                [\<lparr>asked_suspect =
                     find (\<lambda>item. Some (suspect_id item) = selectedSuspectId s1) (suspects c),
                   asked_text = text,
                   asked_remote = (\<not> falsy (apiKey s1))\<rparr>]\<rparr>))"

text \<open>
  What the remote model's call ends in: a text, an error object in the payload, or an
  exception (network failure, malformed payload).
\<close>

datatype remote_outcome = RemoteText string | RemoteError | RemoteFailure

definition plusSuffix :: "string option \<Rightarrow> string \<Rightarrow> string option" where
  "plusSuffix r ending = Some ((case r of None \<Rightarrow> ''undefined'' | Some t \<Rightarrow> t) @ ending)"

definition callGeminiAI :: "suspect \<Rightarrow> string \<Rightarrow> remote_outcome \<Rightarrow> state \<Rightarrow> string option \<times> state" where
  "callGeminiAI sus userText outcome s =
     (case outcome of
        RemoteText t \<Rightarrow> (Some t, s)
      | RemoteError \<Rightarrow>
          (let (r, s1) = getScriptedResponse sus userText s in (plusSuffix r '' (AI Error)'', s1))
      | RemoteFailure \<Rightarrow>
          (let (r, s1) = getScriptedResponse sus userText s
           in (plusSuffix r '' (Connection Error)'', s1)))"

text \<open>
  The rest of \<open>handleUserMessage\<close>, run when the reply of the \<open>i\<close>-th awaited question
  arrives. With no suspect found the reply is a caught \<open>TypeError\<close> and only the page
  changes.
\<close>

definition deliverReply :: "nat \<Rightarrow> remote_outcome \<Rightarrow> state \<Rightarrow> state result" where
  "deliverReply i outcome s =
     (if i \<ge> length (pendingReplies s) then Returned s
      else
        let p = pendingReplies s ! i;
            s1 = s\<lparr>pendingReplies := take i (pendingReplies s) @ drop (Suc i) (pendingReplies s)\<rparr>
        in case asked_suspect p of
             None \<Rightarrow> Returned s1
           | Some sus \<Rightarrow>
               let (response, s2) =
                     (if asked_remote p then callGeminiAI sus (asked_text p) outcome s1
                      else getScriptedResponse sus (asked_text p) s1)
               in Returned
                    (addNote ''interrogation'' (Reply response) (Some (suspect_name sus))
                      (addNote ''interrogation'' (Question (asked_text p)) (Some ''Detective'') s2)))"

definition handleSearch :: "string \<Rightarrow> state \<Rightarrow> state result" where
  "handleSearch type s =
     (if actionPoints s \<le> 0 then Returned s
      else
        case currentCase s of
          None \<Rightarrow> Threw s
        | Some c \<Rightarrow>
            let caseEvidence = evidence c;
                bodyItems = (if type = ''body'' then bodySearch caseEvidence else []);
                newItems = (if type = ''room'' then roomSearch caseEvidence else bodyItems);
                added = filter (\<lambda>item. item \<notin> set (evidenceFound s)) newItems
            in if added = [] then Returned (addNote ''evidence'' NoNewEvidence None s)
               else
                 let s1 = s\<lparr>actionPoints := actionPoints s - 1,
                            evidenceFound := evidenceFound s @ added\<rparr>;
                     s2 = fold (\<lambda>item. addNote ''evidence'' (EvidenceLogged type item) None)
                            added s1
                 in Returned (updateActionPoints s2))"

definition handleLab :: "state \<Rightarrow> state result" where
  "handleLab s =
     (if actionPoints s \<le> 0 \<or> \<not> labReady s \<or> labProcessing s then Returned s
      else
        let s1 = updateActionPoints
                   (s\<lparr>actionPoints := actionPoints s - 1, labProcessing := True\<rparr>);
            s2 = addMessage ''system'' AnalyzingSample s1
        in Returned (s2\<lparr>labTimers := labTimers s2 + 1\<rparr>))"

text \<open>The callback that \<open>handleLab\<close> schedules, run when one of the timers expires.\<close>

definition labComplete :: "state \<Rightarrow> state result" where
  "labComplete s =
     (if labTimers s = 0 then Returned s
      else
        let s0 = s\<lparr>labTimers := labTimers s - 1\<rparr> in
        case currentCase s0 of
          None \<Rightarrow> Threw s0
        | Some c \<Rightarrow>
            let clue = labClue (evidence c);
                s1 = (if clue \<notin> set (evidenceFound s0)
                      then s0\<lparr>evidenceFound := evidenceFound s0 @ [clue]\<rparr> else s0);
                s2 = s1\<lparr>labProcessing := False, labReady := False\<rparr>
            in Returned (updateActionPoints (addMessage ''system'' LabReportReceived s2)))"

section \<open>The accusation\<close>

record judgement =
  isCorrectSuspect :: bool
  keywordHits :: nat
  requiredHits :: nat
  isCorrectMotive :: bool

definition success :: "judgement \<Rightarrow> bool" where
  "success j = (isCorrectSuspect j \<and> isCorrectMotive j)"

text \<open>
  The judgement of \<open>handleAccusation\<close>, on the suspect id chosen and the motive text
  already trimmed and lower-cased.
\<close>

definition judge :: "case_data \<Rightarrow> string \<Rightarrow> string \<Rightarrow> judgement" where
  "judge caseData suspectId motive_text =
     (let hits = length (filter (\<lambda>keyword. includesStr motive_text keyword)
                   (motiveKeywords caseData));
          required = nat \<lceil>real (length (motiveKeywords caseData)) / 2\<rceil>
      in \<lparr>isCorrectSuspect = (suspectId = killerId caseData),
          keywordHits = hits,
          requiredHits = required,
          isCorrectMotive = (hits \<ge> required)\<rparr>)"

datatype verdict = InvalidInput | TypeError | Verdict judgement

text \<open>
  \<open>handleAccusation\<close>; \<open>suspectId\<close> and \<open>motiveInput\<close> are the values of the two form
  fields. The killer's name is read before the award, so a case whose \<open>killerId\<close>
  names no suspect ends in a \<open>TypeError\<close>.
\<close>

definition handleAccusation ::
  "int \<Rightarrow> string \<Rightarrow> string \<Rightarrow> state \<times> store \<Rightarrow> verdict \<times> state \<times> store" where
  "handleAccusation now suspectId motiveInput w =
     (let (s, store) = w;
          motive_text = toLowerCase (trim motiveInput)
      in if suspectId = [] \<or> motive_text = [] then (InvalidInput, s, store)
         else
           case currentCase s of
             None \<Rightarrow> (TypeError, s, store)
           | Some caseData \<Rightarrow>
               let j = judge caseData suspectId motive_text in
               case find (\<lambda>item. suspect_id item = killerId caseData) (suspects caseData) of
                 None \<Rightarrow> (TypeError, s, store)
               | Some killer \<Rightarrow>
                   let ((u, store1), promoted) =
                         addXP now (if success j then 100 else 10) (user s, store);
                       s1 = addNote ''system'' (if success j then CaseSolved else CaseFailed) None
                              (s\<lparr>user := u\<rparr>)
                   in (Verdict j, s1, store1))"

section \<open>Sequences of operations\<close>

datatype op =
    StartCase string
  | SelectSuspect string
  | SendMessage string
  | ReplyArrives nat remote_outcome
  | Search string
  | SendToLab
  | LabTimerFires
  | Accuse string string

fun step :: "int \<times> op \<Rightarrow> state \<times> store \<Rightarrow> state \<times> store" where
  "step (now, StartCase caseId) (s, store) = (stateOf (startCase caseId s), store)"
| "step (now, SelectSuspect suspectId) (s, store) = (stateOf (selectSuspect suspectId s), store)"
| "step (now, SendMessage input) (s, store) = (stateOf (handleUserMessage input s), store)"
| "step (now, ReplyArrives i outcome) (s, store) = (stateOf (deliverReply i outcome s), store)"
| "step (now, Search type) (s, store) = (stateOf (handleSearch type s), store)"
| "step (now, SendToLab) (s, store) = (stateOf (handleLab s), store)"
| "step (now, LabTimerFires) (s, store) = (stateOf (labComplete s), store)"
| "step (now, Accuse suspectId motiveInput) (s, store) =
     snd (handleAccusation now suspectId motiveInput (s, store))"

definition run :: "(int \<times> op) list \<Rightarrow> state \<times> store \<Rightarrow> state \<times> store" where
  "run ops w = fold step ops w"

section \<open>Import and export\<close>












section \<open>Notions used to state the properties\<close>

text \<open>The evidence list that \<open>handleSearch\<close> reads for a search type.\<close>

definition searchItems :: "string \<Rightarrow> case_data \<Rightarrow> string list" where
  "searchItems type c =
     (if type = ''room'' then roomSearch (evidence c)
      else if type = ''body'' then bodySearch (evidence c) else [])"

text \<open>Operations that stay within the current case: every one but \<open>startCase\<close>.\<close>

fun isStartCase :: "op \<Rightarrow> bool" where
  "isStartCase (StartCase caseId) = True"
| "isStartCase operation = False"

definition withinCase :: "(int \<times> op) list \<Rightarrow> bool" where
  "withinCase ops = list_all (\<lambda>t. \<not> isStartCase (snd t)) ops"

text \<open>
  The action points that the \<open>SendToLab\<close> steps of a run take, and the number of
  evidence items that its lab completions add.
\<close>

fun labCost :: "(int \<times> op) list \<Rightarrow> state \<times> store \<Rightarrow> int" where
  "labCost [] w = 0"
| "labCost (t # ts) w =
     (if snd t = SendToLab then actionPoints (fst w) - actionPoints (fst (step t w)) else 0)
     + labCost ts (step t w)"

fun labAdditions :: "(int \<times> op) list \<Rightarrow> state \<times> store \<Rightarrow> nat" where
  "labAdditions [] w = 0"
| "labAdditions (t # ts) w =
     (if snd t = LabTimerFires
      then length (evidenceFound (fst (step t w))) - length (evidenceFound (fst w)) else 0)
     + labAdditions ts (step t w)"

text \<open>A case whose three evidence lists have no repeated entry.\<close>

definition distinctEvidence :: "case_data \<Rightarrow> bool" where
  "distinctEvidence c =
     (distinct (initial (evidence c)) \<and> distinct (bodySearch (evidence c))
      \<and> distinct (roomSearch (evidence c)))"

text \<open>
  The lab is closed when \<open>handleLab\<close> can no longer start it; the clue is found when
  the current case's lab clue is in the evidence.
\<close>

definition labClosed :: "state \<Rightarrow> bool" where
  "labClosed s = (labProcessing s \<or> \<not> labReady s)"

definition clueFound :: "state \<Rightarrow> bool" where
  "clueFound s =
     (case currentCase s of None \<Rightarrow> False
      | Some c \<Rightarrow> labClue (evidence c) \<in> set (evidenceFound s))"

text \<open>
  The state in which the evidence found has no repeated entry and every case at hand,
  active or current, has lists without repeated entries.
\<close>

definition evidenceInvariant :: "state \<Rightarrow> bool" where
  "evidenceInvariant s =
     (distinct (evidenceFound s)
      \<and> list_all distinctEvidence (activeCases s)
      \<and> (case currentCase s of None \<Rightarrow> True | Some c \<Rightarrow> distinctEvidence c))"

text \<open>
  Collapsing in the specification's words, to compare with \<open>collapseUnderscores\<close>:
  an underscore that is followed by another underscore is dropped.
\<close>

fun collapseRuns :: "string \<Rightarrow> string" where
  "collapseRuns (a # b # cs) =
     (if a = CHR ''_'' \<and> b = CHR ''_'' then collapseRuns (b # cs) else a # collapseRuns (b # cs))"
| "collapseRuns cs = cs"

section \<open>Example data\<close>

text \<open>Concrete users, documents, cases and states at which the theorems are instantiated.\<close>

definition exampleUser :: user where
  "exampleUser =
     \<lparr>user_id = ''jane_doe_'', user_name = ''Jane Doe!'', xp = 0, rankIndex = 0,
      user_language = ''en'', solvedCases = [], user_currentCase = None, playTime = 0,
      achievements = [],
      preferences = \<lparr>soundEnabled = True, musicEnabled = False, notifications = True\<rparr>,
      createdAt = 5, lastLogin = 5, loginCount = None, user_lastUpdated = None\<rparr>"

definition exampleDB :: database where
  "exampleDB =
     \<lparr>version = 2, users = [(''jane_doe_'', exampleUser)], lastUser = None,
      settings = \<lparr>autoSave = True, backupEnabled = False, lastBackup = None\<rparr>,
      statistics = \<lparr>totalUsers = 1, totalCasesSolved = 0, totalPlayTime = 0,
                    stats_lastUpdated = 5\<rparr>,
      db_lastUpdated = Some 5\<rparr>"

text \<open>The profile and the store that the first login of "Jane" leaves on an empty store.\<close>

definition newcomer :: user where
  "newcomer = bumpLogin 7 (newUser 7 ''jane'' ''Jane'')"

definition newcomerStore :: store where
  "newcomerStore = Some (save 7 ((save 7 (freshDB 7))\<lparr>lastUser := Some ''jane''\<rparr>))"

definition exampleResult :: case_result where
  "exampleResult =
     \<lparr>cr_id = Some ''c1'', cr_caseId = None, cr_title = Some ''The Last Ledger'',
      cr_accuracy = None, cr_timeTaken = Some 340, cr_score = Some 7\<rparr>"

definition exampleSuspect :: suspect where
  "exampleSuspect =
     \<lparr>suspect_id = ''s1'', suspect_name = ''Ann Reed'', persona = ''Cook, 41'',
      alibi = ''I was in the kitchen until ten.'', motive = ''He owed me wages.'',
      relationship = ''I worked for him.'', suspect_evidence = ''The knife is mine.'',
      generic = Some [''I already told you everything.'', ''Ask someone else.'']\<rparr>"

definition silentSuspect :: suspect where
  "silentSuspect =
     \<lparr>suspect_id = ''s2'', suspect_name = ''Bob Hale'', persona = ''Driver, 35'',
      alibi = ''I was in the garage.'', motive = ''None at all.'',
      relationship = ''I drove him around.'', suspect_evidence = ''The glove is not mine.'',
      generic = None\<rparr>"

definition namesakeSuspect :: suspect where
  "namesakeSuspect = exampleSuspect\<lparr>suspect_id := ''constructor''\<rparr>"

definition exampleCase :: case_data where
  "exampleCase =
     \<lparr>case_id = ''c1'', title = ''The Last Ledger'',
      suspects = [exampleSuspect, silentSuspect],
      evidence = \<lparr>initial = [''torn page'', ''open safe''],
                  bodySearch = [''ink stain'', ''torn page''],
                  roomSearch = [''burnt ledger''],
                  labClue = ''fingerprint on the safe'',
                  smokingGun = ''signed receipt''\<rparr>,
      killerId = ''s2'', motiveText = ''He was about to report the theft.'',
      motiveKeywords = [''money'', ''debt'', ''revenge'']\<rparr>"

definition initialState :: state where
  "initialState =
     \<lparr>currentCase = None, actionPoints = 0, selectedSuspectId = None, chatHistory = [],
      evidenceFound = [], investigationNotes = [], labReady = False, labProcessing = False,
      responseIndex = [], activeCases = [exampleCase], user = None, language = ''en'',
      apiKey = None, labTimers = 0, pendingReplies = []\<rparr>"

definition exampleState :: state where
  "exampleState =
     \<lparr>currentCase = Some exampleCase, actionPoints = 20, selectedSuspectId = None,
      chatHistory = [], evidenceFound = [''torn page'', ''open safe''],
      investigationNotes = [], labReady = True, labProcessing = False,
      responseIndex = [(''s1'', Count 3)], activeCases = [exampleCase], user = Some exampleUser,
      language = ''en'', apiKey = None, labTimers = 0, pendingReplies = []\<rparr>"

definition capitalCase :: case_data where
  "capitalCase = exampleCase\<lparr>motiveKeywords := [''Money'']\<rparr>"

definition capitalState :: state where
  "capitalState = exampleState\<lparr>currentCase := Some capitalCase\<rparr>"

definition exhaustedState :: state where
  "exhaustedState = exampleState\<lparr>actionPoints := 0, selectedSuspectId := Some ''s1''\<rparr>"

definition duplicateCase :: case_data where
  "duplicateCase =
     exampleCase\<lparr>case_id := ''c2'',
       evidence := (evidence exampleCase)\<lparr>initial := [''torn page'', ''torn page'']\<rparr>\<rparr>"

definition duplicateState :: state where
  "duplicateState = initialState\<lparr>activeCases := [duplicateCase]\<rparr>"

section \<open>Facts about strings\<close>

lemma startsWith_iff: "startsWith s k \<longleftrightarrow> (\<exists>r. s = k @ r)"
  by (induction s k rule: startsWith.induct) auto

lemma includes_iff: "includesStr s k \<longleftrightarrow> (\<exists>p r. s = p @ k @ r)"
proof (induction s)
  case Nil
  then show ?case by simp
next
  case (Cons c cs)
  show ?case
  proof
    assume "includesStr (c # cs) k"
    then consider "startsWith (c # cs) k" | "includesStr cs k" by auto
    then show "\<exists>p r. c # cs = p @ k @ r"
    proof cases
      case 1
      then obtain r where "c # cs = k @ r" by (auto simp: startsWith_iff)
      then have "c # cs = [] @ k @ r" by simp
      then show ?thesis by blast
    next
      case 2
      then obtain p r where "cs = p @ k @ r" using Cons.IH by blast
      then have "c # cs = (c # p) @ k @ r" by simp
      then show ?thesis by blast
    qed
  next
    assume "\<exists>p r. c # cs = p @ k @ r"
    then obtain p r where pr: "c # cs = p @ k @ r" by blast
    show "includesStr (c # cs) k"
    proof (cases p)
      case Nil
      with pr have "startsWith (c # cs) k" by (auto simp: startsWith_iff)
      then show ?thesis by simp
    next
      case (Cons a p')
      with pr have "cs = p' @ k @ r" by simp
      then have "includesStr cs k" using Cons.IH by blast
      then show ?thesis by simp
    qed
  qed
qed

lemma lowerChar_cases:
  "lowerChar c = c \<or> c \<in> set ''ABCDEFGHIJKLMNOPQRSTUVWXYZ''"
  unfolding lowerChar_def by (simp split: option.splits if_splits)

lemma isSpace_lowerChar: "isSpace (lowerChar c) = isSpace c"
proof (cases "c \<in> set ''ABCDEFGHIJKLMNOPQRSTUVWXYZ''")
  case True
  then show ?thesis unfolding set_simps insert_iff empty_iff
    by (elim disjE) (simp_all add: lowerChar_def isSpace_def)
next
  case False
  with lowerChar_cases [of c] show ?thesis by simp
qed

lemma lowerChar_idem: "lowerChar (lowerChar c) = lowerChar c"
proof (cases "c \<in> set ''ABCDEFGHIJKLMNOPQRSTUVWXYZ''")
  case True
  then show ?thesis unfolding set_simps insert_iff empty_iff
    by (elim disjE) (simp_all add: lowerChar_def)
next
  case False
  with lowerChar_cases [of c] show ?thesis by simp
qed

lemma toLowerCase_idem: "toLowerCase (toLowerCase s) = toLowerCase s"
  by (simp add: toLowerCase_def lowerChar_idem)

lemma toLowerCase_append: "toLowerCase (a @ b) = toLowerCase a @ toLowerCase b"
  by (simp add: toLowerCase_def)

lemma dropWhile_isSpace_lower:
  "dropWhile isSpace (map lowerChar s) = map lowerChar (dropWhile isSpace s)"
  by (induction s) (auto simp: isSpace_lowerChar)

lemma trim_toLowerCase: "trim (toLowerCase s) = toLowerCase (trim s)"
  by (simp add: trim_def toLowerCase_def dropWhile_isSpace_lower rev_map)

lemma trim_leading: "\<forall>c\<in>set ws. isSpace c \<Longrightarrow> trim (ws @ s) = trim s"
  by (simp add: trim_def)

lemma dropWhile_all: "\<forall>c\<in>set ws. P c \<Longrightarrow> dropWhile P ws = []"
  by (induction ws) auto

lemma trim_trailing:
  assumes "\<forall>c\<in>set ws. isSpace c"
  shows "trim (s @ ws) = trim s"
proof (cases "\<forall>c\<in>set s. isSpace c")
  case True
  with assms have "\<forall>c\<in>set (s @ ws). isSpace c" by auto
  then have a: "dropWhile isSpace (s @ ws) = []" by (rule dropWhile_all)
  from True have b: "dropWhile isSpace s = []" by (rule dropWhile_all)
  show ?thesis by (simp only: trim_def a b)
next
  case False
  then obtain x where "x \<in> set s" and "\<not> isSpace x" by blast
  then have a: "dropWhile isSpace (s @ ws) = dropWhile isSpace s @ ws"
    by (rule dropWhile_append1)
  have b: "dropWhile isSpace (rev ws @ r) = dropWhile isSpace r" for r
    by (rule dropWhile_append2) (use assms in auto)
  show ?thesis by (simp only: trim_def a rev_append b)
qed

lemma trim_surrounded:
  assumes "\<forall>c\<in>set ws1. isSpace c" and "\<forall>c\<in>set ws2. isSpace c"
  shows "trim (ws1 @ s @ ws2) = trim s"
  using assms by (simp add: trim_leading trim_trailing)

lemma collapse_run:
  "startsWith cs ''_'' \<Longrightarrow>
   collapseUnderscores (CHR ''_'' # cs) =
     CHR ''_'' # collapseUnderscores (dropWhile (\<lambda>x. x = CHR ''_'') cs)"
  by simp

lemma collapse_step:
  assumes "\<not> (c = CHR ''_'' \<and> startsWith cs ''_'')"
  shows "collapseUnderscores (c # cs) = c # collapseUnderscores cs"
  using assms by (simp only: collapseUnderscores.simps if_False)

lemma startsWith_single: "startsWith s [k] \<longleftrightarrow> (\<exists>r. s = k # r)"
  by (cases s) auto

lemma collapseUnderscores_chars: "set (collapseUnderscores s) \<subseteq> set s"
proof (induction s rule: collapseUnderscores.induct)
  case 1
  then show ?case by simp
next
  case (2 c cs)
  show ?case
  proof (cases "c = CHR ''_'' \<and> startsWith cs ''_''")
    case True
    let ?d = "dropWhile (\<lambda>x. x = CHR ''_'') cs"
    have "set ?d \<subseteq> set cs" by (auto dest: set_dropWhileD)
    moreover from True 2 have "set (collapseUnderscores ?d) \<subseteq> set ?d" by blast
    moreover from True have "collapseUnderscores (c # cs) = c # collapseUnderscores ?d"
      by (simp only: collapse_run)
    ultimately show ?thesis by auto
  next
    case False
    with 2 have "set (collapseUnderscores cs) \<subseteq> set cs" by blast
    moreover from False have "collapseUnderscores (c # cs) = c # collapseUnderscores cs"
      by (rule collapse_step)
    ultimately show ?thesis by auto
  qed
qed

lemma replaceOutside_chars: "\<forall>c\<in>set (replaceOutside s). idChar c"
  by (auto simp: replaceOutside_def idChar_def)

lemma dropWhile_underscore_head:
  "\<not> startsWith (dropWhile (\<lambda>x. x = CHR ''_'') cs) ''_''"
  by (induction cs) (auto simp: startsWith_single)

lemma collapseUnderscores_start:
  "startsWith (collapseUnderscores s) ''_'' \<longleftrightarrow> startsWith s ''_''"
proof (cases s)
  case Nil
  then show ?thesis by simp
next
  case (Cons c cs)
  show ?thesis
  proof (cases "c = CHR ''_'' \<and> startsWith cs ''_''")
    case True
    then show ?thesis unfolding Cons by (simp only: collapse_run) simp
  next
    case False
    then have "collapseUnderscores (c # cs) = c # collapseUnderscores cs"
      by (rule collapse_step)
    then show ?thesis unfolding Cons by simp
  qed
qed

lemma collapseUnderscores_no_run: "\<not> includesStr (collapseUnderscores s) ''__''"
proof (induction s rule: collapseUnderscores.induct)
  case 1
  then show ?case by simp
next
  case (2 c cs)
  show ?case
  proof (cases "c = CHR ''_'' \<and> startsWith cs ''_''")
    case True
    let ?d = "dropWhile (\<lambda>x. x = CHR ''_'') cs"
    let ?r = "collapseUnderscores ?d"
    from True have eq: "collapseUnderscores (c # cs) = CHR ''_'' # ?r"
      by (simp only: collapse_run)
    have "\<not> startsWith ?r ''_''"
      by (simp only: collapseUnderscores_start dropWhile_underscore_head not_False_eq_True)
    moreover from True 2 have "\<not> includesStr ?r ''__''" by blast
    ultimately show ?thesis unfolding eq by (cases ?r) auto
  next
    case False
    let ?r = "collapseUnderscores cs"
    from False have eq: "collapseUnderscores (c # cs) = c # ?r"
      by (rule collapse_step)
    from False 2 have ih: "\<not> includesStr ?r ''__''" by blast
    have "\<not> (c = CHR ''_'' \<and> startsWith ?r ''_'')"
      using False by (simp add: collapseUnderscores_start)
    then have "\<not> startsWith (c # ?r) ''__''" by (cases ?r) auto
    with ih show ?thesis unfolding eq by simp
  qed
qed

lemma collapseRuns_underscore:
  "collapseRuns (CHR ''_'' # cs) = CHR ''_'' # collapseRuns (dropWhile (\<lambda>x. x = CHR ''_'') cs)"
proof (induction cs)
  case Nil
  then show ?case by simp
next
  case (Cons c cs)
  then show ?case by (cases cs) auto
qed

lemma collapseRuns_other:
  "c \<noteq> CHR ''_'' \<Longrightarrow> collapseRuns (c # cs) = c # collapseRuns cs"
  by (cases cs) auto

lemma collapseUnderscores_runs: "collapseUnderscores s = collapseRuns s"
proof (induction s rule: collapseUnderscores.induct)
  case 1
  then show ?case by simp
next
  case (2 c cs)
  show ?case
  proof (cases "c = CHR ''_'' \<and> startsWith cs ''_''")
    case True
    with 2 have "collapseUnderscores (dropWhile (\<lambda>x. x = CHR ''_'') cs)
        = collapseRuns (dropWhile (\<lambda>x. x = CHR ''_'') cs)" by blast
    with True show ?thesis by (simp only: collapse_run collapseRuns_underscore)
  next
    case False
    with 2 have ih: "collapseUnderscores cs = collapseRuns cs" by blast
    from False have eq: "collapseUnderscores (c # cs) = c # collapseUnderscores cs"
      by (rule collapse_step)
    show ?thesis
    proof (cases "c = CHR ''_''")
      case True
      with False have "\<not> startsWith cs ''_''" by simp
      then have "dropWhile (\<lambda>x. x = CHR ''_'') cs = cs"
        by (cases cs) (auto simp: startsWith_single)
      with True eq ih show ?thesis by (simp add: collapseRuns_underscore)
    next
      case False
      with eq ih show ?thesis by (simp add: collapseRuns_other)
    qed
  qed
qed

lemma generateUserId_spec:
  "generateUserId name =
     collapseRuns (map (\<lambda>c. if idChar c then c else CHR ''_'') (trim (toLowerCase name)))"
  by (simp add: generateUserId_def collapseUnderscores_runs replaceOutside_def)

section \<open>Facts about the persistence document\<close>

lemma getDB_Some: "getDB now (Some d) = (d, Some d)"
  by (simp add: getDB_def)

lemma map_of_update: "map_of (AList.update k v al) = (map_of al)(k \<mapsto> v)"
  by (rule update_conv')

lemma keys_update_present:
  "map_of al k = Some x \<Longrightarrow> map fst (AList.update k v al) = map fst al"
  by (simp add: update_keys map_of_eq_None_iff [symmetric] del: map_of_eq_None_iff)

lemma readProperty_own: "map_of obj key = Some v \<Longrightarrow> readProperty obj key = Own v"
  by (simp add: readProperty_def)

lemma readProperty_cases:
  "readProperty obj key = Own v \<longleftrightarrow> map_of obj key = Some v"
  "readProperty obj key = Inherited \<longleftrightarrow> map_of obj key = None \<and> key \<in> set inheritedNames"
  "readProperty obj key = Missing \<longleftrightarrow> map_of obj key = None \<and> key \<notin> set inheritedNames"
  by (auto simp: readProperty_def split: option.splits)

lemma updateUser_found:
  assumes "map_of (users d) userId = Some stored"
  shows "updateUser now userId updates (Some d) =
           (Own ((assignUpdates stored updates)\<lparr>user_lastUpdated := Some now\<rparr>),
            Some (save now (d\<lparr>users := AList.update userId
               ((assignUpdates stored updates)\<lparr>user_lastUpdated := Some now\<rparr>) (users d)\<rparr>)))"
  using assms by (simp add: updateUser_def getDB_Some Let_def readProperty_own)

lemma updateUser_missing:
  assumes "map_of (users d) userId = None" and "userId \<noteq> ''__proto__''"
  shows "updateUser now userId updates (Some d) = (Missing, Some d)"
  using assms by (simp add: updateUser_def getDB_Some readProperty_def)

lemma idChar_not_upper: "idChar c \<Longrightarrow> c \<notin> set ''ABCDEFGHIJKLMNOPQRSTUVWXYZ''"
proof
  assume a: "idChar c" and "c \<in> set ''ABCDEFGHIJKLMNOPQRSTUVWXYZ''"
  then show False unfolding set_simps insert_iff empty_iff
    by (elim disjE) (simp_all add: idChar_def)
qed

lemma idChar_lower: "idChar c \<Longrightarrow> lowerChar c = c"
  using lowerChar_cases [of c] idChar_not_upper [of c] by blast

lemma idChar_not_space: "idChar c \<Longrightarrow> \<not> isSpace c"
proof
  assume "idChar c" and "isSpace c"
  then show False unfolding isSpace_def set_simps insert_iff empty_iff
    by (elim disjE) (simp_all add: idChar_def)
qed

lemma dropWhile_none: "\<forall>c\<in>set s. \<not> P c \<Longrightarrow> dropWhile P s = s"
  by (cases s) auto

lemma trim_clean: "\<forall>c\<in>set s. idChar c \<Longrightarrow> trim s = s"
  by (simp add: trim_def dropWhile_none idChar_not_space)

lemma toLowerCase_clean: "\<forall>c\<in>set s. idChar c \<Longrightarrow> toLowerCase s = s"
  by (simp add: toLowerCase_def idChar_lower map_idI)

lemma replaceOutside_clean: "\<forall>c\<in>set s. idChar c \<Longrightarrow> replaceOutside s = s"
  by (simp add: replaceOutside_def map_idI)

lemma collapseUnderscores_clean: "\<not> includesStr s ''__'' \<Longrightarrow> collapseUnderscores s = s"
proof (induction s)
  case Nil
  then show ?case by simp
next
  case (Cons c cs)
  then have a: "\<not> startsWith (c # cs) ''__''" and b: "\<not> includesStr cs ''__''" by auto
  from a have "\<not> (c = CHR ''_'' \<and> startsWith cs ''_'')" by (cases cs) auto
  then have "collapseUnderscores (c # cs) = c # collapseUnderscores cs" by (rule collapse_step)
  with b Cons.IH show ?case by simp
qed

lemma generateUserId_chars: "\<forall>c\<in>set (generateUserId name). idChar c"
  using collapseUnderscores_chars [of "replaceOutside (trim (toLowerCase name))"]
    replaceOutside_chars [of "trim (toLowerCase name)"]
  by (auto simp: generateUserId_def)

lemma generateUserId_no_run: "\<not> includesStr (generateUserId name) ''__''"
  by (simp add: generateUserId_def collapseUnderscores_no_run)

lemma generateUserId_clean:
  "\<forall>c\<in>set name. idChar c \<Longrightarrow> \<not> includesStr name ''__'' \<Longrightarrow> generateUserId name = name"
  by (simp add: generateUserId_def toLowerCase_clean trim_clean replaceOutside_clean
      collapseUnderscores_clean)

lemma isSpace_toLowerCase: "\<forall>c\<in>set ws. isSpace c \<Longrightarrow> \<forall>c\<in>set (toLowerCase ws). isSpace c"
  by (simp add: toLowerCase_def isSpace_lowerChar)

lemma generateUserId_variants:
  assumes "\<forall>c\<in>set (ws1 @ ws2 @ ws3 @ ws4). isSpace c"
    and "toLowerCase core = toLowerCase core'"
  shows "generateUserId (ws1 @ core @ ws2) = generateUserId (ws3 @ core' @ ws4)"
proof -
  have "trim (toLowerCase (w @ x @ w')) = trim (toLowerCase x)"
    if "\<forall>c\<in>set w. isSpace c" and "\<forall>c\<in>set w'. isSpace c" for w x w'
    using that by (simp add: toLowerCase_append trim_surrounded isSpace_toLowerCase)
  with assms show ?thesis by (simp add: generateUserId_def)
qed

lemma createUser_new:
  assumes "readProperty (users d) (generateUserId name) = Missing"
  shows "createUser now name (Some d) =
     (Some (newUser now (generateUserId name) name),
      Some (save now (d\<lparr>users := AList.update (generateUserId name)
                           (newUser now (generateUserId name) name) (users d),
                        statistics := (statistics d)\<lparr>totalUsers :=
                           countKeys (AList.update (generateUserId name)
                             (newUser now (generateUserId name) name) (users d))\<rparr>\<rparr>)))"
  using assms by (simp add: createUser_def getDB_Some Let_def)

lemma createUser_existing:
  assumes "readProperty (users d) (generateUserId name) \<noteq> Missing"
  shows "createUser now name (Some d) = (None, Some d)"
  using assms by (simp add: createUser_def getDB_Some Let_def)

lemma createUser_stores:
  assumes "createUser now name store = (Some created, store1)"
  shows "\<exists>d1. store1 = Some d1 \<and> map_of (users d1) (generateUserId name) = Some created
              \<and> user_id created = generateUserId name"
proof -
  obtain d where d: "getDB now store = (d, Some d)"
    by (cases store) (auto simp: getDB_def)
  show ?thesis
  proof (cases "readProperty (users d) (generateUserId name) = Missing")
    case True
    with assms d show ?thesis
      by (auto simp: createUser_def Let_def save_def map_of_update newUser_def)
  next
    case False
    with assms d show ?thesis by (simp add: createUser_def Let_def)
  qed
qed

lemma login_existing:
  assumes "map_of (users d) (generateUserId name) = Some stored"
  shows "login now name (Some d) =
     (Own (bumpLogin now stored),
      Some (save now (d\<lparr>users := AList.update (generateUserId name) (bumpLogin now stored) (users d),
                        lastUser := Some (generateUserId name)\<rparr>)))"
  using assms by (simp add: login_def getDB_Some Let_def readProperty_own)

section \<open>Facts about the session handlers\<close>

lemma addNote_fields [simp]:
  "actionPoints (addNote ty m who s) = actionPoints s"
  "evidenceFound (addNote ty m who s) = evidenceFound s"
  "currentCase (addNote ty m who s) = currentCase s"
  "labReady (addNote ty m who s) = labReady s"
  "labProcessing (addNote ty m who s) = labProcessing s"
  "labTimers (addNote ty m who s) = labTimers s"
  "activeCases (addNote ty m who s) = activeCases s"
  "responseIndex (addNote ty m who s) = responseIndex s"
  "selectedSuspectId (addNote ty m who s) = selectedSuspectId s"
  "pendingReplies (addNote ty m who s) = pendingReplies s"
  "user (addNote ty m who s) = user s"
  "apiKey (addNote ty m who s) = apiKey s"
  by (simp_all add: addNote_def)

lemma addMessage_fields [simp]:
  "actionPoints (addMessage a m s) = actionPoints s"
  "evidenceFound (addMessage a m s) = evidenceFound s"
  "currentCase (addMessage a m s) = currentCase s"
  "labReady (addMessage a m s) = labReady s"
  "labProcessing (addMessage a m s) = labProcessing s"
  "labTimers (addMessage a m s) = labTimers s"
  "activeCases (addMessage a m s) = activeCases s"
  "responseIndex (addMessage a m s) = responseIndex s"
  "selectedSuspectId (addMessage a m s) = selectedSuspectId s"
  "pendingReplies (addMessage a m s) = pendingReplies s"
  "user (addMessage a m s) = user s"
  "apiKey (addMessage a m s) = apiKey s"
  by (simp_all add: addMessage_def Let_def)

lemma updateActionPoints_fields [simp]:
  "actionPoints (updateActionPoints s) = actionPoints s"
  "evidenceFound (updateActionPoints s) = evidenceFound s"
  "currentCase (updateActionPoints s) = currentCase s"
  "labReady (updateActionPoints s) = labReady s"
  "labProcessing (updateActionPoints s) = labProcessing s"
  "labTimers (updateActionPoints s) = labTimers s"
  "activeCases (updateActionPoints s) = activeCases s"
  "responseIndex (updateActionPoints s) = responseIndex s"
  "selectedSuspectId (updateActionPoints s) = selectedSuspectId s"
  "pendingReplies (updateActionPoints s) = pendingReplies s"
  "user (updateActionPoints s) = user s"
  "apiKey (updateActionPoints s) = apiKey s"
  by (simp_all add: updateActionPoints_def)

lemma fold_addNote_fields [simp]:
  "actionPoints (fold (\<lambda>item. addNote ty (f item) who) xs s) = actionPoints s"
  "evidenceFound (fold (\<lambda>item. addNote ty (f item) who) xs s) = evidenceFound s"
  "currentCase (fold (\<lambda>item. addNote ty (f item) who) xs s) = currentCase s"
  "labReady (fold (\<lambda>item. addNote ty (f item) who) xs s) = labReady s"
  "labProcessing (fold (\<lambda>item. addNote ty (f item) who) xs s) = labProcessing s"
  "labTimers (fold (\<lambda>item. addNote ty (f item) who) xs s) = labTimers s"
  "activeCases (fold (\<lambda>item. addNote ty (f item) who) xs s) = activeCases s"
  by (induction xs arbitrary: s; simp)+

lemma handleSearch_refused: "actionPoints s \<le> 0 \<Longrightarrow> handleSearch type s = Returned s"
  by (simp add: handleSearch_def)

lemma handleSearch_nothing:
  assumes "actionPoints s > 0" and "currentCase s = Some c"
    and "set (searchItems type c) \<subseteq> set (evidenceFound s)"
  shows "handleSearch type s = Returned (addNote ''evidence'' NoNewEvidence None s)"
proof -
  from assms(3) have "filter (\<lambda>item. item \<notin> set (evidenceFound s)) (searchItems type c) = []"
    by (auto simp: filter_empty_conv)
  with assms(1,2) show ?thesis
    by (simp add: handleSearch_def Let_def searchItems_def)
qed

lemma handleSearch_found:
  assumes "actionPoints s > 0" and "currentCase s = Some c"
    and "\<not> set (searchItems type c) \<subseteq> set (evidenceFound s)"
  shows "actionPoints (stateOf (handleSearch type s)) = actionPoints s - 1"
    and "evidenceFound (stateOf (handleSearch type s)) =
           evidenceFound s @ filter (\<lambda>item. item \<notin> set (evidenceFound s)) (searchItems type c)"
    and "currentCase (stateOf (handleSearch type s)) = currentCase s"
proof -
  from assms(3) have ne: "filter (\<lambda>item. item \<notin> set (evidenceFound s)) (searchItems type c) \<noteq> []"
    by (auto simp: filter_empty_conv)
  with assms(1,2) show "actionPoints (stateOf (handleSearch type s)) = actionPoints s - 1"
    and "evidenceFound (stateOf (handleSearch type s)) =
           evidenceFound s @ filter (\<lambda>item. item \<notin> set (evidenceFound s)) (searchItems type c)"
    and "currentCase (stateOf (handleSearch type s)) = currentCase s"
    by (simp_all add: handleSearch_def Let_def searchItems_def)
qed

lemma getScriptedResponse_fields [simp]:
  "actionPoints (snd (getScriptedResponse sus t s)) = actionPoints s"
  "evidenceFound (snd (getScriptedResponse sus t s)) = evidenceFound s"
  "currentCase (snd (getScriptedResponse sus t s)) = currentCase s"
  "labReady (snd (getScriptedResponse sus t s)) = labReady s"
  "labProcessing (snd (getScriptedResponse sus t s)) = labProcessing s"
  "labTimers (snd (getScriptedResponse sus t s)) = labTimers s"
  "activeCases (snd (getScriptedResponse sus t s)) = activeCases s"
  by (simp_all add: getScriptedResponse_def Let_def)

lemma callGeminiAI_fields [simp]:
  "actionPoints (snd (callGeminiAI sus t outcome s)) = actionPoints s"
  "evidenceFound (snd (callGeminiAI sus t outcome s)) = evidenceFound s"
  "currentCase (snd (callGeminiAI sus t outcome s)) = currentCase s"
  "labReady (snd (callGeminiAI sus t outcome s)) = labReady s"
  "labProcessing (snd (callGeminiAI sus t outcome s)) = labProcessing s"
  "labTimers (snd (callGeminiAI sus t outcome s)) = labTimers s"
  "activeCases (snd (callGeminiAI sus t outcome s)) = activeCases s"
  by (cases outcome; simp add: callGeminiAI_def split_beta)+

lemma deliverReply_fields [simp]:
  "actionPoints (stateOf (deliverReply i outcome s)) = actionPoints s"
  "evidenceFound (stateOf (deliverReply i outcome s)) = evidenceFound s"
  "currentCase (stateOf (deliverReply i outcome s)) = currentCase s"
  "labReady (stateOf (deliverReply i outcome s)) = labReady s"
  "labProcessing (stateOf (deliverReply i outcome s)) = labProcessing s"
  "labTimers (stateOf (deliverReply i outcome s)) = labTimers s"
  "activeCases (stateOf (deliverReply i outcome s)) = activeCases s"
  by (simp_all add: deliverReply_def Let_def split_beta split: option.splits)

lemma selectSuspect_fields [simp]:
  "actionPoints (stateOf (selectSuspect suspectId s)) = actionPoints s"
  "evidenceFound (stateOf (selectSuspect suspectId s)) = evidenceFound s"
  "currentCase (stateOf (selectSuspect suspectId s)) = currentCase s"
  "labReady (stateOf (selectSuspect suspectId s)) = labReady s"
  "labProcessing (stateOf (selectSuspect suspectId s)) = labProcessing s"
  "labTimers (stateOf (selectSuspect suspectId s)) = labTimers s"
  "activeCases (stateOf (selectSuspect suspectId s)) = activeCases s"
  by (simp_all add: selectSuspect_def Let_def split: option.splits)

lemma handleUserMessage_fields [simp]:
  "evidenceFound (stateOf (handleUserMessage input s)) = evidenceFound s"
  "currentCase (stateOf (handleUserMessage input s)) = currentCase s"
  "labReady (stateOf (handleUserMessage input s)) = labReady s"
  "labProcessing (stateOf (handleUserMessage input s)) = labProcessing s"
  "labTimers (stateOf (handleUserMessage input s)) = labTimers s"
  "activeCases (stateOf (handleUserMessage input s)) = activeCases s"
  by (simp_all add: handleUserMessage_def Let_def split: option.splits)

lemma handleUserMessage_points:
  "actionPoints (stateOf (handleUserMessage input s)) =
     (if falsy (selectedSuspectId s) \<or> actionPoints s \<le> 0 \<or> trim input = []
      then actionPoints s else actionPoints s - 1)"
  by (simp add: handleUserMessage_def Let_def split: option.splits)

lemma handleSearch_fields [simp]:
  "currentCase (stateOf (handleSearch type s)) = currentCase s"
  "labReady (stateOf (handleSearch type s)) = labReady s"
  "labProcessing (stateOf (handleSearch type s)) = labProcessing s"
  "labTimers (stateOf (handleSearch type s)) = labTimers s"
  "activeCases (stateOf (handleSearch type s)) = activeCases s"
  by (simp_all add: handleSearch_def Let_def split: option.splits)

lemma handleSearch_points:
  "actionPoints s - 1 \<le> actionPoints (stateOf (handleSearch type s))"
  "actionPoints (stateOf (handleSearch type s)) \<le> actionPoints s"
  "0 \<le> actionPoints s \<Longrightarrow> 0 \<le> actionPoints (stateOf (handleSearch type s))"
  by (simp_all add: handleSearch_def Let_def split: option.splits)

lemma handleLab_fields [simp]:
  "evidenceFound (stateOf (handleLab s)) = evidenceFound s"
  "currentCase (stateOf (handleLab s)) = currentCase s"
  "activeCases (stateOf (handleLab s)) = activeCases s"
  by (simp_all add: handleLab_def Let_def)

lemma handleLab_refused:
  "actionPoints s \<le> 0 \<or> \<not> labReady s \<or> labProcessing s \<Longrightarrow> handleLab s = Returned s"
  by (auto simp: handleLab_def)

lemma handleLab_started:
  assumes "actionPoints s > 0" and "labReady s" and "\<not> labProcessing s"
  shows "actionPoints (stateOf (handleLab s)) = actionPoints s - 1"
    and "labProcessing (stateOf (handleLab s))"
    and "labReady (stateOf (handleLab s))"
    and "labTimers (stateOf (handleLab s)) = labTimers s + 1"
  using assms by (simp_all add: handleLab_def Let_def)

lemma handleLab_points:
  "0 \<le> actionPoints s \<Longrightarrow> 0 \<le> actionPoints (stateOf (handleLab s))"
  by (simp add: handleLab_def Let_def)

lemma labComplete_fields [simp]:
  "actionPoints (stateOf (labComplete s)) = actionPoints s"
  "currentCase (stateOf (labComplete s)) = currentCase s"
  "activeCases (stateOf (labComplete s)) = activeCases s"
  by (simp_all add: labComplete_def Let_def split: option.splits)

lemma startCase_points [simp]: "actionPoints (stateOf (startCase caseId s)) = 20"
  by (simp add: startCase_def Let_def setSystemIntro_def split: option.splits)

lemma handleAccusation_fields [simp]:
  "actionPoints (fst (snd (handleAccusation now suspectId motiveInput (s, store)))) = actionPoints s"
  "evidenceFound (fst (snd (handleAccusation now suspectId motiveInput (s, store)))) = evidenceFound s"
  "currentCase (fst (snd (handleAccusation now suspectId motiveInput (s, store)))) = currentCase s"
  "labReady (fst (snd (handleAccusation now suspectId motiveInput (s, store)))) = labReady s"
  "labProcessing (fst (snd (handleAccusation now suspectId motiveInput (s, store)))) = labProcessing s"
  "labTimers (fst (snd (handleAccusation now suspectId motiveInput (s, store)))) = labTimers s"
  "activeCases (fst (snd (handleAccusation now suspectId motiveInput (s, store)))) = activeCases s"
  by (simp_all add: handleAccusation_def Let_def split_beta split: option.splits)

lemma step_points:
  assumes "0 \<le> actionPoints (fst w)"
  shows "0 \<le> actionPoints (fst (step tick w))"
proof -
  obtain now operation where t: "tick = (now, operation)" by (cases tick)
  obtain s store where w: "w = (s, store)" by (cases w)
  from assms w have p: "0 \<le> actionPoints s" by simp
  show ?thesis unfolding t w
    using p by (cases operation)
      (simp_all add: handleSearch_points handleLab_points handleUserMessage_points)
qed

lemma run_points:
  "0 \<le> actionPoints (fst w) \<Longrightarrow> 0 \<le> actionPoints (fst (run ops w))"
  unfolding run_def by (induction ops arbitrary: w) (simp_all add: step_points)

lemma handleSearch_evidence:
  "evidenceFound (stateOf (handleSearch type s)) =
     evidenceFound s @
       (if actionPoints s \<le> 0 then []
        else case currentCase s of
               None \<Rightarrow> []
             | Some c \<Rightarrow> filter (\<lambda>item. item \<notin> set (evidenceFound s)) (searchItems type c))"
  by (simp add: handleSearch_def Let_def searchItems_def split: option.splits)

lemma labComplete_evidence:
  "evidenceFound (stateOf (labComplete s)) =
     evidenceFound s @
       (if labTimers s = 0 then []
        else case currentCase s of
               None \<Rightarrow> []
             | Some c \<Rightarrow> if labClue (evidence c) \<in> set (evidenceFound s) then []
                         else [labClue (evidence c)])"
  by (simp add: labComplete_def Let_def split: option.splits)

lemma labComplete_flags:
  assumes "labTimers s > 0" and "currentCase s = Some c"
  shows "\<not> labProcessing (stateOf (labComplete s))"
    and "\<not> labReady (stateOf (labComplete s))"
    and "labTimers (stateOf (labComplete s)) = labTimers s - 1"
  using assms by (simp_all add: labComplete_def Let_def)

lemma labComplete_closed:
  "labProcessing s \<or> \<not> labReady s \<Longrightarrow>
   labProcessing (stateOf (labComplete s)) \<or> \<not> labReady (stateOf (labComplete s))"
  by (auto simp: labComplete_def Let_def split: option.splits)

lemma step_evidence_prefix:
  assumes "\<not> isStartCase (snd t)"
  shows "prefix (evidenceFound (fst w)) (evidenceFound (fst (step t w)))"
proof -
  obtain now operation where t: "t = (now, operation)" by (cases t)
  obtain s store where w: "w = (s, store)" by (cases w)
  show ?thesis unfolding t w using assms t
    by (cases operation) (simp_all add: handleSearch_evidence labComplete_evidence)
qed

lemma step_currentCase:
  assumes "\<not> isStartCase (snd t)"
  shows "currentCase (fst (step t w)) = currentCase (fst w)"
proof -
  obtain now operation where t: "t = (now, operation)" by (cases t)
  obtain s store where w: "w = (s, store)" by (cases w)
  show ?thesis unfolding t w using assms t by (cases operation) simp_all
qed

lemma step_activeCases: "activeCases (fst (step t w)) = activeCases (fst w)"
proof -
  obtain now operation where t: "t = (now, operation)" by (cases t)
  obtain s store where w: "w = (s, store)" by (cases w)
  show ?thesis unfolding t w
    by (cases operation) (simp_all add: startCase_def Let_def setSystemIntro_def split: option.splits)
qed

lemma run_Cons: "run (t # ts) w = run ts (step t w)"
  by (simp add: run_def)

lemma run_evidence_prefix:
  "withinCase ops \<Longrightarrow> prefix (evidenceFound (fst w)) (evidenceFound (fst (run ops w)))"
proof (induction ops arbitrary: w)
  case Nil
  then show ?case by (simp add: run_def)
next
  case (Cons t ts)
  then have a: "\<not> isStartCase (snd t)" and b: "withinCase ts" by (simp_all add: withinCase_def)
  from step_evidence_prefix [OF a, of w] Cons.IH [OF b, of "step t w"]
  show ?case unfolding run_Cons by (rule prefix_order.trans)
qed

lemma step_labClosed:
  assumes "\<not> isStartCase (snd t)" and "labClosed (fst w)"
  shows "labClosed (fst (step t w))"
proof -
  obtain now operation where t: "t = (now, operation)" by (cases t)
  obtain s store where w: "w = (s, store)" by (cases w)
  from assms(2) w have c: "labProcessing s \<or> \<not> labReady s" by (simp add: labClosed_def)
  then have l: "handleLab s = Returned s" by (auto simp: handleLab_def)
  show ?thesis unfolding t w labClosed_def using assms(1) t c labComplete_closed [OF c]
    by (cases operation) (simp_all add: l)
qed

lemma step_lab_cost:
  "snd t = SendToLab \<Longrightarrow>
   actionPoints (fst w) - actionPoints (fst (step t w)) =
     (if actionPoints (fst w) > 0 \<and> labReady (fst w) \<and> \<not> labProcessing (fst w) then 1 else 0)"
proof -
  assume a: "snd t = SendToLab"
  obtain now operation where t: "t = (now, operation)" by (cases t)
  obtain s store where w: "w = (s, store)" by (cases w)
  from a t have o: "operation = SendToLab" by simp
  show ?thesis unfolding t w o by (simp add: handleLab_def Let_def)
qed

lemma labCost_closed:
  "withinCase ops \<Longrightarrow> labClosed (fst w) \<Longrightarrow> labCost ops w = 0"
proof (induction ops arbitrary: w)
  case Nil
  then show ?case by simp
next
  case (Cons t ts)
  then have a: "\<not> isStartCase (snd t)" and b: "withinCase ts" by (simp_all add: withinCase_def)
  from step_labClosed [OF a Cons.prems(2)] have "labCost ts (step t w) = 0"
    by (rule Cons.IH [OF b])
  moreover have "snd t = SendToLab \<Longrightarrow> actionPoints (fst w) - actionPoints (fst (step t w)) = 0"
    using Cons.prems(2) by (auto simp: step_lab_cost labClosed_def)
  ultimately show ?case by simp
qed

lemma labCost_bounds:
  "withinCase ops \<Longrightarrow> 0 \<le> labCost ops w \<and> labCost ops w \<le> 1"
proof (induction ops arbitrary: w)
  case Nil
  then show ?case by simp
next
  case (Cons t ts)
  then have a: "\<not> isStartCase (snd t)" and b: "withinCase ts" by (simp_all add: withinCase_def)
  note ih = Cons.IH [OF b, of "step t w"]
  show ?case
  proof (cases "snd t = SendToLab \<and> actionPoints (fst w) > 0 \<and> labReady (fst w)
      \<and> \<not> labProcessing (fst w)")
    case True
    obtain now operation where t: "t = (now, operation)" by (cases t)
    obtain s store where w: "w = (s, store)" by (cases w)
    from True t w have "labProcessing (fst (step t w))"
      by (simp add: handleLab_started)
    then have "labClosed (fst (step t w))" by (simp add: labClosed_def)
    with b have "labCost ts (step t w) = 0" by (rule labCost_closed)
    with True show ?thesis by (simp add: step_lab_cost)
  next
    case False
    then have "snd t = SendToLab \<Longrightarrow> actionPoints (fst w) - actionPoints (fst (step t w)) = 0"
      by (auto simp: step_lab_cost)
    with ih show ?thesis by simp
  qed
qed

lemma step_clueFound:
  assumes "\<not> isStartCase (snd t)" and "clueFound (fst w)"
  shows "clueFound (fst (step t w))"
proof -
  from step_evidence_prefix [OF assms(1), of w]
  have "set (evidenceFound (fst w)) \<subseteq> set (evidenceFound (fst (step t w)))"
    by (rule set_mono_prefix)
  with assms(2) step_currentCase [OF assms(1), of w] show ?thesis
    by (auto simp: clueFound_def split: option.splits)
qed

lemma step_lab_addition:
  "snd t = LabTimerFires \<Longrightarrow>
   length (evidenceFound (fst (step t w))) - length (evidenceFound (fst w)) =
     (if labTimers (fst w) > 0 \<and> currentCase (fst w) \<noteq> None \<and> \<not> clueFound (fst w)
      then 1 else 0)
   \<and> (labTimers (fst w) > 0 \<and> currentCase (fst w) \<noteq> None \<longrightarrow> clueFound (fst (step t w)))"
proof -
  assume a: "snd t = LabTimerFires"
  obtain now operation where t: "t = (now, operation)" by (cases t)
  obtain s store where w: "w = (s, store)" by (cases w)
  from a t have o: "operation = LabTimerFires" by simp
  show ?thesis unfolding t w o
    by (auto simp: labComplete_evidence clueFound_def split: option.splits)
qed

lemma labAdditions_found:
  "withinCase ops \<Longrightarrow> clueFound (fst w) \<Longrightarrow> labAdditions ops w = 0"
proof (induction ops arbitrary: w)
  case Nil
  then show ?case by simp
next
  case (Cons t ts)
  then have a: "\<not> isStartCase (snd t)" and b: "withinCase ts" by (simp_all add: withinCase_def)
  from step_clueFound [OF a Cons.prems(2)] have "labAdditions ts (step t w) = 0"
    by (rule Cons.IH [OF b])
  moreover have "snd t = LabTimerFires \<Longrightarrow>
      length (evidenceFound (fst (step t w))) - length (evidenceFound (fst w)) = 0"
    using Cons.prems(2) by (simp add: step_lab_addition)
  ultimately show ?case by simp
qed

lemma labAdditions_bound: "withinCase ops \<Longrightarrow> labAdditions ops w \<le> 1"
proof (induction ops arbitrary: w)
  case Nil
  then show ?case by simp
next
  case (Cons t ts)
  then have a: "\<not> isStartCase (snd t)" and b: "withinCase ts" by (simp_all add: withinCase_def)
  note ih = Cons.IH [OF b, of "step t w"]
  show ?case
  proof (cases "snd t = LabTimerFires \<and> labTimers (fst w) > 0 \<and> currentCase (fst w) \<noteq> None")
    case True
    with step_lab_addition [of t w] have "clueFound (fst (step t w))" by simp
    with b have "labAdditions ts (step t w) = 0" by (rule labAdditions_found)
    with True step_lab_addition [of t w] show ?thesis by simp
  next
    case False
    then have "snd t = LabTimerFires \<Longrightarrow>
      length (evidenceFound (fst (step t w))) - length (evidenceFound (fst w)) = 0"
      using step_lab_addition [of t w] by auto
    with ih show ?thesis by simp
  qed
qed

lemma startCase_found:
  assumes "find (\<lambda>item. case_id item = caseId) (activeCases s) = Some c"
  shows "evidenceFound (stateOf (startCase caseId s)) = initial (evidence c)"
    and "currentCase (stateOf (startCase caseId s)) = Some c"
  using assms by (simp_all add: startCase_def Let_def setSystemIntro_def)

lemma startCase_missing:
  assumes "find (\<lambda>item. case_id item = caseId) (activeCases s) = None"
  shows "evidenceFound (stateOf (startCase caseId s)) = evidenceFound s"
    and "currentCase (stateOf (startCase caseId s)) = None"
  using assms by (simp_all add: startCase_def Let_def)

lemma searchItems_distinct: "distinctEvidence c \<Longrightarrow> distinct (searchItems type c)"
  by (simp add: searchItems_def distinctEvidence_def)

lemma distinct_append_new:
  "distinct xs \<Longrightarrow> distinct ys \<Longrightarrow> distinct (xs @ filter (\<lambda>item. item \<notin> set xs) ys)"
  by auto

lemma startCase_invariant:
  assumes "evidenceInvariant s"
  shows "evidenceInvariant (stateOf (startCase caseId s))"
proof (cases "find (\<lambda>item. case_id item = caseId) (activeCases s)")
  case None
  from startCase_missing [OF None] assms show ?thesis
    using step_activeCases [of "(0, StartCase caseId)" "(s, None)"]
    by (simp add: evidenceInvariant_def)
next
  case (Some c)
  then have "c \<in> set (activeCases s)" by (auto simp: find_Some_iff)
  with assms have d: "distinctEvidence c" by (auto simp: evidenceInvariant_def list_all_iff)
  from startCase_found [OF Some] d assms show ?thesis
    using step_activeCases [of "(0, StartCase caseId)" "(s, None)"]
    by (simp add: evidenceInvariant_def distinctEvidence_def)
qed

lemma handleSearch_invariant:
  assumes "evidenceInvariant s"
  shows "evidenceInvariant (stateOf (handleSearch type s))"
  using assms
  by (auto simp: evidenceInvariant_def handleSearch_evidence searchItems_distinct
      split: option.splits)

lemma labComplete_invariant:
  assumes "evidenceInvariant s"
  shows "evidenceInvariant (stateOf (labComplete s))"
  using assms
  by (auto simp: evidenceInvariant_def labComplete_evidence split: option.splits)

lemma step_invariant:
  assumes "evidenceInvariant (fst w)"
  shows "evidenceInvariant (fst (step t w))"
proof -
  obtain now operation where t: "t = (now, operation)" by (cases t)
  obtain s store where w: "w = (s, store)" by (cases w)
  from assms w have i: "evidenceInvariant s" by simp
  show ?thesis unfolding t w
  proof (cases operation)
    case (StartCase x)
    with i show "evidenceInvariant (fst (step (now, operation) (s, store)))"
      by (simp add: startCase_invariant)
  next
    case (Search x)
    with i show "evidenceInvariant (fst (step (now, operation) (s, store)))"
      by (simp add: handleSearch_invariant)
  next
    case LabTimerFires
    with i show "evidenceInvariant (fst (step (now, operation) (s, store)))"
      by (simp add: labComplete_invariant)
  next
    case (SelectSuspect x)
    with i show "evidenceInvariant (fst (step (now, operation) (s, store)))"
      by (simp add: evidenceInvariant_def)
  next
    case (SendMessage x)
    with i show "evidenceInvariant (fst (step (now, operation) (s, store)))"
      by (simp add: evidenceInvariant_def)
  next
    case (ReplyArrives x y)
    with i show "evidenceInvariant (fst (step (now, operation) (s, store)))"
      by (simp add: evidenceInvariant_def)
  next
    case SendToLab
    with i show "evidenceInvariant (fst (step (now, operation) (s, store)))"
      by (simp add: evidenceInvariant_def)
  next
    case (Accuse x y)
    with i show "evidenceInvariant (fst (step (now, operation) (s, store)))"
      by (simp add: evidenceInvariant_def)
  qed
qed

lemma run_invariant:
  "evidenceInvariant (fst w) \<Longrightarrow> evidenceInvariant (fst (run ops w))"
  unfolding run_def by (induction ops arbitrary: w) (simp_all add: step_invariant)

lemma getScriptedResponse_empty_generic:
  assumes "generic sus = Some []"
    and "fst (getScriptedResponse sus text s) \<noteq> Some (alibi sus)"
    and "fst (getScriptedResponse sus text s) \<noteq> Some (motive sus)"
    and "fst (getScriptedResponse sus text s) \<noteq> Some (relationship sus)"
    and "fst (getScriptedResponse sus text s) \<noteq> Some (suspect_evidence sus)"
  shows "fst (getScriptedResponse sus text s) = None"
  using assms by (simp add: getScriptedResponse_def Let_def split: if_splits option.splits)

section \<open>Claim C8: user id derivation\<close>

lemma generateUserId_Jane: "generateUserId ''Jane Doe!'' = ''jane_doe_''"
  by (simp add: generateUserId_def toLowerCase_def lowerChar_def trim_def isSpace_def
      replaceOutside_def idChar_def)

lemma createUser_Jane: "createUser 5 ''Jane Doe!'' None = (Some exampleUser, Some exampleDB)"
  by (simp add: createUser_def getDB_def Let_def generateUserId_Jane newUser_def save_def
      freshDB_def exampleUser_def exampleDB_def countKeys_def VERSION_def trim_def isSpace_def
      readProperty_def inheritedNames_def)

text \<open>
  The derivation of the id. The id derived from a name consists of characters of
  \<open>[a-z0-9_]\<close> only and has no two underscores in a row; a name that is already such
  an id is its own id; and the id is the lower-cased, trimmed name with every other
  character replaced by an underscore and every underscore that is followed by an
  underscore dropped. Two names that differ only in letter case and in surrounding
  white space have the same id. Whenever \<open>createUser\<close> has stored a user under one
  spelling, a later \<open>login\<close> under the other returns that stored user: same id, no
  record added, and the id becomes \<open>lastUser\<close>.
\<close>

lemma generateUserId_variants_resolve:
  assumes a: "a = ws1 @ core @ ws2" and b: "b = ws3 @ core' @ ws4"
    and spaces: "\<forall>c\<in>set (ws1 @ ws2 @ ws3 @ ws4). isSpace c"
    and same: "toLowerCase core = toLowerCase core'"
    and created: "createUser t1 a store = (Some created, store1)"
  shows "(\<forall>c\<in>set (generateUserId a). idChar c)
       \<and> \<not> includesStr (generateUserId a) ''__''
       \<and> (\<forall>n. (\<forall>c\<in>set n. idChar c) \<and> \<not> includesStr n ''__'' \<longrightarrow> generateUserId n = n)
       \<and> generateUserId a =
           collapseRuns (map (\<lambda>c. if idChar c then c else CHR ''_'') (trim (toLowerCase a)))
       \<and> generateUserId a = generateUserId b
       \<and> (\<exists>d1 d2 u. store1 = Some d1
             \<and> map_of (users d1) (generateUserId a) = Some created
             \<and> user_id created = generateUserId a
             \<and> login t2 b store1 = (Own u, Some d2)
             \<and> user_id u = user_id created
             \<and> map_of (users d2) (generateUserId b) = Some u
             \<and> map fst (users d2) = map fst (users d1)
             \<and> lastUser d2 = Some (user_id created))"
proof -
  have ids: "generateUserId a = generateUserId b"
    unfolding a b using spaces same by (rule generateUserId_variants)
  from created obtain d1 where d1: "store1 = Some d1"
    and stored: "map_of (users d1) (generateUserId a) = Some created"
    and uid: "user_id created = generateUserId a"
    using createUser_stores by blast
  from stored ids have stored_b: "map_of (users d1) (generateUserId b) = Some created"
    by simp
  let ?u = "bumpLogin t2 created"
  let ?d2 = "save t2 (d1\<lparr>users := AList.update (generateUserId b) ?u (users d1),
                          lastUser := Some (generateUserId b)\<rparr>)"
  have lg: "login t2 b store1 = (Own ?u, Some ?d2)"
    unfolding d1 using stored_b by (rule login_existing)
  have u1: "user_id ?u = user_id created" by (simp add: bumpLogin_def)
  have u2: "map_of (users ?d2) (generateUserId b) = Some ?u"
    by (simp add: save_def map_of_update)
  have u3: "map fst (users ?d2) = map fst (users d1)"
    using stored_b by (simp add: save_def keys_update_present)
  have u4: "lastUser ?d2 = Some (user_id created)"
    using uid ids by (simp add: save_def)
  have scenario: "\<exists>d1 d2 u. store1 = Some d1
             \<and> map_of (users d1) (generateUserId a) = Some created
             \<and> user_id created = generateUserId a
             \<and> login t2 b store1 = (Own u, Some d2)
             \<and> user_id u = user_id created
             \<and> map_of (users d2) (generateUserId b) = Some u
             \<and> map fst (users d2) = map fst (users d1)
             \<and> lastUser d2 = Some (user_id created)"
    apply (rule exI [of _ d1])
    apply (rule exI [of _ ?d2])
    apply (rule exI [of _ ?u])
    apply (intro conjI)
    apply (rule d1)
    apply (rule stored)
    apply (rule uid)
    apply (rule lg)
    apply (rule u1)
    apply (rule u2)
    apply (rule u3)
    apply (rule u4)
    done
  have clean: "\<forall>n. (\<forall>c\<in>set n. idChar c) \<and> \<not> includesStr n ''__'' \<longrightarrow> generateUserId n = n"
    by (simp add: generateUserId_clean)
  from generateUserId_chars [of a] generateUserId_no_run [of a] clean
    generateUserId_spec [of a] ids scenario
  show ?thesis by (intro conjI) assumption+
qed

lemma generateUserId_variants_resolve_Jane:
  "generateUserId ''Jane Doe!'' = generateUserId '' jane doe! ''
   \<and> (\<exists>d2 u. login 7 '' jane doe! '' (Some exampleDB) = (Own u, Some d2)
          \<and> user_id u = ''jane_doe_''
          \<and> map fst (users d2) = [''jane_doe_''])"
proof -
  have ha: "''Jane Doe!'' = [] @ ''Jane Doe!'' @ []" by simp
  have hb: "'' jane doe! '' = '' '' @ ''jane doe!'' @ '' ''" by simp
  have h1: "\<forall>c\<in>set ([] @ [] @ '' '' @ '' ''). isSpace c" by (simp add: isSpace_def)
  have h2: "toLowerCase ''Jane Doe!'' = toLowerCase ''jane doe!''"
    by (simp add: toLowerCase_def lowerChar_def)
  note t = generateUserId_variants_resolve [OF ha hb h1 h2 createUser_Jane, of 7]
  from t have ids: "generateUserId ''Jane Doe!'' = generateUserId '' jane doe! ''"
    by (elim conjE)
  from t obtain d1 d2 u where d1: "Some exampleDB = Some d1"
    and lg: "login 7 '' jane doe! '' (Some exampleDB) = (Own u, Some d2)"
    and uid: "user_id u = user_id exampleUser"
    and keys: "map fst (users d2) = map fst (users d1)"
    by (elim conjE exE)
  have "user_id u = ''jane_doe_''" using uid by (simp add: exampleUser_def)
  moreover from d1 have e: "d1 = exampleDB" by simp
  have "map fst (users d2) = [''jane_doe_'']"
    unfolding keys e by (simp add: exampleDB_def)
  ultimately show ?thesis using ids lg by (intro conjI exI) assumption+
qed

lemma generateUserId_Constructor:
  "generateUserId ''Constructor'' = ''constructor''"
  "generateUserId ''constructor'' = ''constructor''"
  by (simp_all add: generateUserId_def toLowerCase_def lowerChar_def trim_def isSpace_def
      replaceOutside_def idChar_def)

text \<open>
  Claim C8. Names that differ only in letter case and in surrounding white space are to
  resolve, in \<open>createUser\<close> and in a later \<open>login\<close>, to the same stored user id. The
  ids are the same, but \<open>createUser\<close> and \<open>login\<close> read \<open>db.users[id]\<close> without asking
  whether the property is the document's own. On an empty store, "Constructor" and
  "constructor" both have the id "constructor"; \<open>createUser\<close> finds the inherited
  \<open>constructor\<close>, reports that the user exists and stores nothing; \<open>login\<close> returns
  that built-in object and records the id as \<open>lastUser\<close>, and the store holds no user
  at all: there is no stored user for the two names to resolve to.
\<close>

theorem createUser_login_inherited_name:
  "generateUserId ''Constructor'' = generateUserId ''constructor''
   \<and> createUser 5 ''Constructor'' None = (None, Some (save 5 (freshDB 5)))
   \<and> login 7 ''constructor'' (Some (save 5 (freshDB 5))) =
        (Inherited, Some (save 7 ((save 5 (freshDB 5))\<lparr>lastUser := Some ''constructor''\<rparr>)))
   \<and> users (save 7 ((save 5 (freshDB 5))\<lparr>lastUser := Some ''constructor''\<rparr>)) = []
   \<and> fst (getUser 8 ''constructor''
             (Some (save 7 ((save 5 (freshDB 5))\<lparr>lastUser := Some ''constructor''\<rparr>)))) = Inherited"
proof -
  have r: "readProperty (users (save 5 (freshDB 5))) ''constructor'' = Inherited"
    by (simp add: readProperty_def save_def freshDB_def inheritedNames_def)
  have c: "createUser 5 ''Constructor'' None = (None, Some (save 5 (freshDB 5)))"
    by (simp add: createUser_def getDB_def Let_def generateUserId_Constructor r)
  have l: "login 7 ''constructor'' (Some (save 5 (freshDB 5))) =
        (Inherited, Some (save 7 ((save 5 (freshDB 5))\<lparr>lastUser := Some ''constructor''\<rparr>)))"
    by (simp add: login_def getDB_def Let_def generateUserId_Constructor r)
  have u: "users (save 7 ((save 5 (freshDB 5))\<lparr>lastUser := Some ''constructor''\<rparr>)) = []"
    by (simp add: save_def freshDB_def)
  have g: "fst (getUser 8 ''constructor''
             (Some (save 7 ((save 5 (freshDB 5))\<lparr>lastUser := Some ''constructor''\<rparr>)))) = Inherited"
    by (simp add: getUser_def getDB_def readProperty_def u inheritedNames_def)
  from c l u g show ?thesis by (simp only: generateUserId_Constructor simp_thms)
qed
section \<open>Claim C10: solved cases and the statistics counter\<close>

text \<open>
  Claim C10. For an existing user, \<open>addSolvedCase\<close> stores the user's record with
  exactly one solved case appended, and leaves the stored statistics, with the
  counter \<open>totalCasesSolved\<close>, as they were: the incremented document is dropped and
  \<open>updateUser\<close> saves its own copy. The other users' records are untouched.
\<close>

theorem addSolvedCase_appends_keeps_counter:
  assumes "map_of (users d) userId = Some u"
  shows "\<exists>d' u'. addSolvedCase now userId caseData (Some d) = (True, Some d')
           \<and> map_of (users d') userId = Some u'
           \<and> solvedCases u' = solvedCases u @ [solvedCaseOf now caseData]
           \<and> length (solvedCases u') = length (solvedCases u) + 1
           \<and> statistics d' = statistics d
           \<and> totalCasesSolved (statistics d') = totalCasesSolved (statistics d)
           \<and> (\<forall>k. k \<noteq> userId \<longrightarrow> map_of (users d') k = map_of (users d) k)"
proof -
  let ?u1 = "u\<lparr>solvedCases := solvedCases u @ [solvedCaseOf now caseData]\<rparr>"
  let ?u2 = "(assignUpdates u ?u1)\<lparr>user_lastUpdated := Some now\<rparr>"
  let ?d' = "save now (d\<lparr>users := AList.update userId ?u2 (users d)\<rparr>)"
  have run: "addSolvedCase now userId caseData (Some d) = (True, Some ?d')"
    using assms
    by (simp add: addSolvedCase_def getUser_def getDB_Some updateUser_found Let_def
        readProperty_own)
  have "map_of (users ?d') userId = Some ?u2"
    by (simp add: save_def map_of_update)
  moreover have "solvedCases ?u2 = solvedCases u @ [solvedCaseOf now caseData]"
    by (simp add: assignUpdates_def)
  moreover have "statistics ?d' = statistics d"
    by (simp add: save_def)
  moreover have "\<forall>k. k \<noteq> userId \<longrightarrow> map_of (users ?d') k = map_of (users d) k"
    by (simp add: save_def map_of_update)
  ultimately show ?thesis using run by auto
qed

theorem addSolvedCase_appends_keeps_counter_witness:
  "\<exists>d' u'. addSolvedCase 9 ''jane_doe_'' exampleResult (Some exampleDB) = (True, Some d')
     \<and> map_of (users d') ''jane_doe_'' = Some u'
     \<and> solvedCases u' = [solvedCaseOf 9 exampleResult]
     \<and> totalCasesSolved (statistics d') = 0"
proof -
  have h: "map_of (users exampleDB) ''jane_doe_'' = Some exampleUser"
    by (simp add: exampleDB_def)
  have "solvedCases exampleUser = []" by (simp add: exampleUser_def)
  moreover have "totalCasesSolved (statistics exampleDB) = 0" by (simp add: exampleDB_def)
  ultimately show ?thesis
    using addSolvedCase_appends_keeps_counter [OF h, of 9 exampleResult] by auto
qed

section \<open>Claim C7: experience points and rank\<close>

lemma rankLoop_prefix:
  "fold (\<lambda>i newIndex. if points \<ge> ranks ! i then i else newIndex) [0..<n] 0 =
     Max (insert 0 {i. i < n \<and> ranks ! i \<le> points})"
proof (induction n)
  case 0
  then show ?case by simp
next
  case (Suc n)
  let ?S = "{i. i < n \<and> ranks ! i \<le> points}"
  let ?S' = "{i. i < Suc n \<and> ranks ! i \<le> points}"
  have fin: "finite ?S" by simp
  show ?case
  proof (cases "ranks ! n \<le> points")
    case True
    then have S': "?S' = insert n ?S" by (auto simp: less_Suc_eq)
    have "Max (insert 0 (insert n ?S)) = n"
    proof (rule Max_eqI)
      show "finite (insert 0 (insert n ?S))" using fin by simp
      show "y \<le> n" if "y \<in> insert 0 (insert n ?S)" for y using that by auto
      show "n \<in> insert 0 (insert n ?S)" by simp
    qed
    with True S' show ?thesis by simp
  next
    case False
    then have "?S' = ?S" by (auto simp: less_Suc_eq)
    with False Suc show ?thesis by simp
  qed
qed

lemma rankLoop_Max:
  "rankLoop ranks points = Max (insert 0 {i. i < length ranks \<and> ranks ! i \<le> points})"
  unfolding rankLoop_def by (rule rankLoop_prefix)

lemma rankLoop_RANKS:
  assumes "0 \<le> points"
  shows "rankLoop RANKS points = Max {i. i < length RANKS \<and> RANKS ! i \<le> points}"
proof -
  from assms have "0 \<in> {i. i < length RANKS \<and> RANKS ! i \<le> points}"
    by (simp add: RANKS_def)
  then have "insert 0 {i. i < length RANKS \<and> RANKS ! i \<le> points}
      = {i. i < length RANKS \<and> RANKS ! i \<le> points}" by (rule insert_absorb)
  then show ?thesis by (simp only: rankLoop_Max)
qed

lemma rankLoop_examples: "rankLoop RANKS 100 = 1" "rankLoop RANKS 50 = 0"
  by (simp_all add: rankLoop_def RANKS_def upt_rec)

lemma addXP_unfold:
  "addXP now amount (Some u, store) =
     ((Some (u\<lparr>xp := xp u + amount, rankIndex := rankLoop RANKS (xp u + amount)\<rparr>),
       snd (updateUser now (user_id u)
             (u\<lparr>xp := xp u + amount, rankIndex := rankLoop RANKS (xp u + amount)\<rparr>) store)),
      rankLoop RANKS (xp u + amount) > rankIndex u)"
  by (simp add: addXP_def Let_def split: prod.splits)

lemma updateUser_store_found:
  assumes "map_of (users (fst (getDB now store))) userId = Some stored"
  shows "\<exists>d'. snd (updateUser now userId updates store) = Some d'
     \<and> map_of (users d') userId = Some ((assignUpdates stored updates)\<lparr>user_lastUpdated := Some now\<rparr>)
     \<and> (\<forall>k. k \<noteq> userId \<longrightarrow> map_of (users d') k = map_of (users (fst (getDB now store))) k)"
proof -
  obtain d st where g: "getDB now store = (d, st)" by (cases "getDB now store")
  with assms show ?thesis
    by (simp add: updateUser_def Let_def save_def map_of_update readProperty_own)
qed

text \<open>
  What \<open>addXP\<close> does to \<open>state.user\<close>. For a logged-in user with non-negative
  points and a non-negative amount, \<open>addXP\<close> adds the amount, sets \<open>rankIndex\<close> to the
  highest index of \<open>RANKS\<close> whose threshold the new points reach (from 0 points, 100
  gives rank 1 and 50 gives rank 0), and reports a promotion exactly when the new rank
  exceeds the old one.
\<close>

lemma addXP_rank_and_promotion:
  assumes amount: "0 \<le> amount" and points: "0 \<le> xp u"
    and result: "addXP now amount (Some u, store) = ((u', store'), promoted)"
  shows "\<exists>v. u' = Some v
     \<and> v = u\<lparr>xp := xp u + amount, rankIndex := rankLoop RANKS (xp u + amount)\<rparr>
     \<and> xp v = xp u + amount
     \<and> rankIndex v = Max {i. i < length RANKS \<and> RANKS ! i \<le> xp v}
     \<and> (promoted \<longleftrightarrow> rankIndex v > rankIndex u)
     \<and> rankLoop RANKS (0 + 100) = 1 \<and> rankLoop RANKS (0 + 50) = 0"
proof -
  let ?v = "u\<lparr>xp := xp u + amount, rankIndex := rankLoop RANKS (xp u + amount)\<rparr>"
  from result have u': "u' = Some ?v"
    and promoted: "promoted \<longleftrightarrow> rankLoop RANKS (xp u + amount) > rankIndex u"
    by (simp_all add: addXP_unfold)
  have rank: "rankIndex ?v = Max {i. i < length RANKS \<and> RANKS ! i \<le> xp ?v}"
    using amount points by (simp add: rankLoop_RANKS)
  show ?thesis
    apply (rule exI [of _ ?v])
    apply (intro conjI)
    apply (rule u')
    apply (rule refl)
    apply simp
    apply (rule rank)
    apply (simp add: promoted)
    apply (simp add: rankLoop_examples)
    apply (simp add: rankLoop_examples)
    done
qed

text \<open>
  When the store holds a record under the user's id, \<open>addXP\<close> writes the new points and
  the new rank to it, whether or not the user was promoted.
\<close>

lemma addXP_persists_stored_user:
  assumes result: "addXP now amount (Some u, store) = ((u', store'), promoted)"
    and stored: "map_of (users (fst (getDB now store))) (user_id u) = Some stored"
  shows "\<exists>d' w. store' = Some d' \<and> map_of (users d') (user_id u) = Some w
     \<and> xp w = xp u + amount \<and> rankIndex w = rankLoop RANKS (xp u + amount)"
proof -
  let ?v = "u\<lparr>xp := xp u + amount, rankIndex := rankLoop RANKS (xp u + amount)\<rparr>"
  from result have store': "store' = snd (updateUser now (user_id u) ?v store)"
    by (simp add: addXP_unfold)
  from updateUser_store_found [OF stored, of ?v]
  obtain d' where "store' = Some d'"
    and "map_of (users d') (user_id u) =
           Some ((assignUpdates stored ?v)\<lparr>user_lastUpdated := Some now\<rparr>)"
    unfolding store' by blast
  then show ?thesis by (simp add: assignUpdates_def)
qed

lemma addXP_persists_stored_user_Jane:
  "\<exists>d' w. addXP 9 100 (Some exampleUser, Some exampleDB)
             = ((Some (exampleUser\<lparr>xp := 100, rankIndex := 1\<rparr>), Some d'), True)
     \<and> map_of (users d') ''jane_doe_'' = Some w \<and> xp w = 100 \<and> rankIndex w = 1"
  by (simp add: addXP_def updateUser_def getDB_def Let_def readProperty_def exampleDB_def
      exampleUser_def save_def assignUpdates_def rankLoop_examples)

lemma generateUserId_Jane_short: "generateUserId ''Jane'' = ''jane''"
  by (simp add: generateUserId_def toLowerCase_def lowerChar_def trim_def isSpace_def
      replaceOutside_def idChar_def)

text \<open>
  Claim C7. After every \<open>addXP\<close> the updated user record is to be in the store. On an
  empty store the first \<open>login\<close> of "Jane" returns the new profile, but saves the
  document that it read before \<open>createUser\<close> stored the record, so the store that
  \<open>login\<close> leaves holds no user. \<open>addXP\<close> then adds the 100 points to
  \<open>state.user\<close>, moves the rank from 0 to 1 and reports the promotion, while its
  \<open>updateUser\<close> finds no record and stores nothing: the store is as it was, without
  the user.
\<close>

theorem addXP_after_first_login_not_stored:
  "login 7 ''Jane'' None = (Own newcomer, newcomerStore)
   \<and> xp newcomer = 0 \<and> rankIndex newcomer = 0 \<and> user_id newcomer = ''jane''
   \<and> addXP 9 100 (Some newcomer, newcomerStore)
        = ((Some (newcomer\<lparr>xp := 100, rankIndex := 1\<rparr>), newcomerStore), True)
   \<and> map_option users newcomerStore = Some []
   \<and> fst (getUser 10 ''jane'' newcomerStore) = Missing"
proof -
  have l: "login 7 ''Jane'' None = (Own newcomer, newcomerStore)"
    by (simp add: login_def createUser_def getDB_def generateUserId_Jane_short Let_def
        freshDB_def save_def readProperty_def inheritedNames_def newcomer_def newcomerStore_def)
  have f: "xp newcomer = 0" "rankIndex newcomer = 0" "user_id newcomer = ''jane''"
    by (simp_all add: newcomer_def bumpLogin_def newUser_def)
  have a: "addXP 9 100 (Some newcomer, newcomerStore)
        = ((Some (newcomer\<lparr>xp := 100, rankIndex := 1\<rparr>), newcomerStore), True)"
    by (simp add: addXP_def updateUser_def getDB_def Let_def f readProperty_def
        inheritedNames_def newcomerStore_def save_def freshDB_def rankLoop_examples)
  have u: "map_option users newcomerStore = Some []"
    by (simp add: newcomerStore_def save_def freshDB_def)
  have g: "fst (getUser 10 ''jane'' newcomerStore) = Missing"
    by (simp add: getUser_def getDB_def readProperty_def inheritedNames_def newcomerStore_def
        save_def freshDB_def)
  from l f a u g show ?thesis by (intro conjI)
qed
section \<open>Claim C6: the scripted responder\<close>

lemma lower_hello: "toLowerCase ''Hello there'' = ''hello there''"
  by (simp add: toLowerCase_def lowerChar_def)

lemma indexNumber_cases:
  "indexNumber obj key = Some i \<longleftrightarrow>
     map_of obj key = Some (Count i) \<or> (map_of obj key = None \<and> key \<notin> set inheritedNames \<and> i = 0)"
  by (auto simp: indexNumber_def readProperty_def split: option.splits cursor.splits)

lemma indexNumber_advance:
  assumes "indexNumber obj key = Some i"
  shows "indexNumber (assignCursor key (Count (Suc i)) obj) key = Some (Suc i)"
    and "k \<noteq> key \<Longrightarrow> readProperty (assignCursor key (Count (Suc i)) obj) k = readProperty obj k"
proof -
  from assms have own: "key = ''__proto__'' \<Longrightarrow> map_of obj key \<noteq> None"
    by (auto simp: indexNumber_cases inheritedNames_def)
  then have a: "assignCursor key (Count (Suc i)) obj = AList.update key (Count (Suc i)) obj"
    by (auto simp: assignCursor_def)
  show "indexNumber (assignCursor key (Count (Suc i)) obj) key = Some (Suc i)"
    unfolding a by (simp add: indexNumber_def readProperty_def map_of_update)
  show "k \<noteq> key \<Longrightarrow> readProperty (assignCursor key (Count (Suc i)) obj) k = readProperty obj k"
    unfolding a by (simp add: readProperty_def map_of_update)
qed

text \<open>
  Under an id that is not an inherited name the cursor is a number from the start of a
  case on: \<open>startCase\<close> empties \<open>responseIndex\<close>, and the responder, the only
  function that writes to it, stores counts under such ids.
\<close>

lemma indexNumber_numeric:
  assumes "key \<notin> set inheritedNames" and "map_of obj key \<noteq> Some Spliced"
  shows "\<exists>i. indexNumber obj key = Some i"
proof (cases "map_of obj key")
  case None
  with assms show ?thesis by (simp add: indexNumber_cases)
next
  case (Some c)
  with assms show ?thesis by (cases c) (simp_all add: indexNumber_cases)
qed

lemma getScriptedResponse_numeric:
  assumes "\<forall>k. k \<notin> set inheritedNames \<longrightarrow> map_of (responseIndex s) k \<noteq> Some Spliced"
  shows "\<forall>k. k \<notin> set inheritedNames \<longrightarrow>
           map_of (responseIndex (snd (getScriptedResponse sus text s))) k \<noteq> Some Spliced"
proof (intro allI impI)
  fix k assume k: "k \<notin> set inheritedNames"
  with assms have old: "map_of (responseIndex s) k \<noteq> Some Spliced" by simp
  show "map_of (responseIndex (snd (getScriptedResponse sus text s))) k \<noteq> Some Spliced"
  proof (cases "k = suspect_id sus")
    case True
    with k old have "\<exists>i. indexNumber (responseIndex s) (suspect_id sus) = Some i"
      by (simp add: indexNumber_numeric)
    then obtain i where "indexNumber (responseIndex s) (suspect_id sus) = Some i" ..
    moreover from True k have "suspect_id sus \<noteq> ''__proto__''"
      by (auto simp: inheritedNames_def)
    ultimately show ?thesis using True old
      by (simp add: getScriptedResponse_def Let_def assignCursor_def map_of_update)
  next
    case False
    with old show ?thesis
      by (simp add: getScriptedResponse_def Let_def assignCursor_def map_of_update)
  qed
qed

text \<open>
  Claim C6, as amended. The responder tests the lower-cased question in a fixed order:
  "alibi", "where" or "time" give the alibi; else "motive" or "why" the motive; else
  "relationship" or "victim" the relationship; else "evidence" or "clue" the evidence
  line; none of these changes the state. Otherwise, when the suspect's cursor is a
  number (a stored count, or 0 when nothing is stored under the suspect's id), the reply
  is the generic line at the cursor modulo the number of lines, or the fixed "I have
  nothing to say." when the suspect has no list of generic lines; in both cases the
  suspect's cursor advances by exactly one and no other cursor changes.
\<close>

theorem getScriptedResponse_priority_and_cursor:
  "let lower = toLowerCase text;
       a = (includesStr lower ''alibi'' \<or> includesStr lower ''where'' \<or> includesStr lower ''time'');
       m = (includesStr lower ''motive'' \<or> includesStr lower ''why'');
       r = (includesStr lower ''relationship'' \<or> includesStr lower ''victim'');
       e = (includesStr lower ''evidence'' \<or> includesStr lower ''clue'');
       reply = fst (getScriptedResponse sus text s);
       s' = snd (getScriptedResponse sus text s)
   in (a \<longrightarrow> reply = Some (alibi sus) \<and> s' = s)
    \<and> (\<not> a \<and> m \<longrightarrow> reply = Some (motive sus) \<and> s' = s)
    \<and> (\<not> a \<and> \<not> m \<and> r \<longrightarrow> reply = Some (relationship sus) \<and> s' = s)
    \<and> (\<not> a \<and> \<not> m \<and> \<not> r \<and> e \<longrightarrow> reply = Some (suspect_evidence sus) \<and> s' = s)
    \<and> (\<forall>cursor. \<not> a \<and> \<not> m \<and> \<not> r \<and> \<not> e
          \<and> indexNumber (responseIndex s) (suspect_id sus) = Some cursor \<longrightarrow>
          (\<forall>g. generic sus = Some g \<and> g \<noteq> [] \<longrightarrow> reply = Some (g ! (cursor mod length g)))
        \<and> (generic sus = None \<longrightarrow> reply = Some ''I have nothing to say.'')
        \<and> indexNumber (responseIndex s') (suspect_id sus) = Some (cursor + 1)
        \<and> (\<forall>k. k \<noteq> suspect_id sus \<longrightarrow>
              readProperty (responseIndex s') k = readProperty (responseIndex s) k)
        \<and> s' = s\<lparr>responseIndex := responseIndex s'\<rparr>)"
  by (simp add: getScriptedResponse_def Let_def indexNumber_advance)

theorem getScriptedResponse_priority_and_cursor_witness:
  "fst (getScriptedResponse exampleSuspect ''Hello there'' exampleState) = Some ''Ask someone else.''
   \<and> indexNumber (responseIndex (snd (getScriptedResponse exampleSuspect ''Hello there'' exampleState)))
        ''s1'' = Some 4"
proof -
  have g: "generic exampleSuspect = Some [''I already told you everything.'', ''Ask someone else.'']"
    and i: "suspect_id exampleSuspect = ''s1''"
    by (simp_all add: exampleSuspect_def)
  have c: "indexNumber (responseIndex exampleState) ''s1'' = Some 3"
    by (simp add: exampleState_def indexNumber_def readProperty_def)
  have w: "(3::nat) mod Suc (Suc 0) = Suc 0" by arith
  show ?thesis
    using getScriptedResponse_priority_and_cursor [of "''Hello there''" exampleSuspect exampleState]
    unfolding Let_def lower_hello i c g by (simp add: w)
qed

text \<open>
  The claim as first stated fails: for a suspect without generic lines the cursor is
  advanced all the same. It fails as well for a suspect whose id is the name of a
  property that every object inherits: the cursor read is then no number, the reply is
  undefined where a generic line is due, and what is stored is a string.
\<close>

theorem getScriptedResponse_cursor_counterexample:
  "generic silentSuspect = None
   \<and> fst (getScriptedResponse silentSuspect ''Hello there'' exampleState) = Some ''I have nothing to say.''
   \<and> indexNumber (responseIndex exampleState) ''s2'' = Some 0
   \<and> indexNumber (responseIndex (snd (getScriptedResponse silentSuspect ''Hello there'' exampleState)))
        ''s2'' = Some 1
   \<and> generic namesakeSuspect = Some [''I already told you everything.'', ''Ask someone else.'']
   \<and> fst (getScriptedResponse namesakeSuspect ''Hello there'' exampleState) = None
   \<and> map_of (responseIndex (snd (getScriptedResponse namesakeSuspect ''Hello there'' exampleState)))
        ''constructor'' = Some Spliced"
  by (simp add: getScriptedResponse_def Let_def lower_hello silentSuspect_def exampleState_def
      namesakeSuspect_def exampleSuspect_def indexNumber_def readProperty_def assignCursor_def
      inheritedNames_def)
section \<open>Claim C1: the accusation\<close>

lemma requiredHits_div: "nat \<lceil>real n / 2\<rceil> = (n + 1) div 2"
  by linarith

lemma toLowerCase_Nil: "toLowerCase s = [] \<longleftrightarrow> s = []"
  by (simp add: toLowerCase_def)

lemma toLowerCase_length: "length (toLowerCase s) = length s"
  by (simp add: toLowerCase_def)

lemma includes_lowered:
  assumes "includesStr (toLowerCase t) k"
  shows "toLowerCase k = k"
proof -
  from assms obtain p r where eq: "toLowerCase t = p @ k @ r"
    by (auto simp: includes_iff)
  have "toLowerCase (toLowerCase t) = toLowerCase t" by (rule toLowerCase_idem)
  then have "toLowerCase p @ toLowerCase k @ toLowerCase r = p @ k @ r"
    unfolding eq by (simp add: toLowerCase_append)
  then show ?thesis by (simp add: toLowerCase_length)
qed

lemma judge_fields:
  "isCorrectSuspect (judge c suspectId t) = (suspectId = killerId c)"
  "keywordHits (judge c suspectId t) = length (filter (includesStr t) (motiveKeywords c))"
  "requiredHits (judge c suspectId t) = nat \<lceil>real (length (motiveKeywords c)) / 2\<rceil>"
  "isCorrectMotive (judge c suspectId t) =
     (keywordHits (judge c suspectId t) \<ge> requiredHits (judge c suspectId t))"
  by (simp_all add: judge_def Let_def)

lemma keywordHits_card:
  "keywordHits (judge c suspectId t) =
     card {i. i < length (motiveKeywords c) \<and> (\<exists>p r. t = p @ motiveKeywords c ! i @ r)}"
  by (simp add: judge_fields length_filter_conv_card includes_iff)

lemma handleAccusation_valid:
  assumes "suspectId \<noteq> []" and "trim motiveInput \<noteq> []"
    and "currentCase s = Some c"
    and "find (\<lambda>item. suspect_id item = killerId c) (suspects c) = Some killer"
  shows "handleAccusation now suspectId motiveInput (s, store) =
     (Verdict (judge c suspectId (toLowerCase (trim motiveInput))),
      addNote ''system''
        (if success (judge c suspectId (toLowerCase (trim motiveInput)))
         then CaseSolved else CaseFailed) None
        (s\<lparr>user := fst (fst (addXP now
            (if success (judge c suspectId (toLowerCase (trim motiveInput))) then 100 else 10)
            (user s, store)))\<rparr>),
      snd (fst (addXP now
            (if success (judge c suspectId (toLowerCase (trim motiveInput))) then 100 else 10)
            (user s, store))))"
  using assms
  by (simp add: handleAccusation_def Let_def toLowerCase_Nil split: prod.splits)

lemma addXP_user:
  "fst (fst (addXP now amount (u, store))) =
     map_option (\<lambda>v. v\<lparr>xp := xp v + amount, rankIndex := rankLoop RANKS (xp v + amount)\<rparr>) u"
  by (cases u) (simp_all add: addXP_unfold, simp add: addXP_def)

lemma exampleCase_killer:
  "find (\<lambda>item. suspect_id item = killerId exampleCase) (suspects exampleCase) = Some silentSuspect"
  by (simp add: exampleCase_def exampleSuspect_def silentSuspect_def)

lemma capitalCase_killer:
  "find (\<lambda>item. suspect_id item = killerId capitalCase) (suspects capitalCase) = Some silentSuspect"
  by (simp add: capitalCase_def exampleCase_def exampleSuspect_def silentSuspect_def)

lemma motive_lowered:
  "toLowerCase (trim ''  He owed MONEY and had a Debt '') = ''he owed money and had a debt''"
  by (simp add: trim_def isSpace_def toLowerCase_def lowerChar_def)

text \<open>
  What the handler computes. For a current case whose killer is one of its suspects
  (the handler reads the killer's name), a non-empty suspect id and a motive text that
  is non-empty once trimmed, the verdict is a function of the case and the two inputs:
  the suspect is correct iff the id equals \<open>killerId\<close>; the hits are the number of
  keyword entries that occur, as the case writes them, as substrings of the trimmed,
  lower-cased motive text; the required hits are the ceiling of half the number of
  keywords; the motive is correct iff the hits reach the required hits; success is both
  together. The verdict does not depend on the letter case of the motive text, and a
  keyword that is not in lower case is not found in any motive text. The award is 100
  points on success and 10 otherwise, and the action points and the evidence found are
  unchanged.
\<close>

lemma handleAccusation_verdict:
  assumes sid: "suspectId \<noteq> []" and nonempty: "trim motiveInput \<noteq> []"
    and cur: "currentCase s = Some c"
    and killer: "find (\<lambda>item. suspect_id item = killerId c) (suspects c) = Some killer"
  shows "let motive_text = toLowerCase (trim motiveInput);
             kws = motiveKeywords c;
             j = judge c suspectId motive_text;
             after = handleAccusation now suspectId motiveInput (s, store)
         in fst after = Verdict j
          \<and> (isCorrectSuspect j \<longleftrightarrow> suspectId = killerId c)
          \<and> keywordHits j = card {i. i < length kws \<and> (\<exists>p r. motive_text = p @ kws ! i @ r)}
          \<and> requiredHits j = nat \<lceil>real (length kws) / 2\<rceil>
          \<and> requiredHits j = (length kws + 1) div 2
          \<and> (isCorrectMotive j \<longleftrightarrow> keywordHits j \<ge> requiredHits j)
          \<and> (success j \<longleftrightarrow> isCorrectSuspect j \<and> isCorrectMotive j)
          \<and> (\<forall>other. toLowerCase other = toLowerCase motiveInput \<longrightarrow>
                fst (handleAccusation now suspectId other (s, store)) = Verdict j)
          \<and> (\<forall>k\<in>set kws. toLowerCase k \<noteq> k \<longrightarrow> \<not> includesStr motive_text k)
          \<and> user (fst (snd after)) =
               map_option (\<lambda>v. v\<lparr>xp := xp v + (if success j then 100 else 10),
                                   rankIndex := rankLoop RANKS
                                     (xp v + (if success j then 100 else 10))\<rparr>) (user s)
          \<and> actionPoints (fst (snd after)) = actionPoints s
          \<and> evidenceFound (fst (snd after)) = evidenceFound s"
proof -
  let ?t = "toLowerCase (trim motiveInput)"
  let ?j = "judge c suspectId ?t"
  let ?after = "handleAccusation now suspectId motiveInput (s, store)"
  note v = handleAccusation_valid [OF sid nonempty cur killer, of now store]
  have a1: "fst ?after = Verdict ?j" by (simp add: v)
  have a8: "\<forall>other. toLowerCase other = toLowerCase motiveInput \<longrightarrow>
                fst (handleAccusation now suspectId other (s, store)) = Verdict ?j"
  proof (intro allI impI)
    fix other assume o: "toLowerCase other = toLowerCase motiveInput"
    then have same: "toLowerCase (trim other) = ?t"
      by (simp add: trim_toLowerCase [symmetric])
    from nonempty have "?t \<noteq> []" by (simp add: toLowerCase_Nil)
    with same have "toLowerCase (trim other) \<noteq> []" by simp
    then have "trim other \<noteq> []" by (simp add: toLowerCase_Nil)
    from handleAccusation_valid [OF sid this cur killer, of now store] same
    show "fst (handleAccusation now suspectId other (s, store)) = Verdict ?j" by simp
  qed
  have a9: "\<forall>k\<in>set (motiveKeywords c). toLowerCase k \<noteq> k \<longrightarrow> \<not> includesStr ?t k"
    using includes_lowered by blast
  have a10: "user (fst (snd ?after)) =
               map_option (\<lambda>v. v\<lparr>xp := xp v + (if success ?j then 100 else 10),
                                   rankIndex := rankLoop RANKS
                                     (xp v + (if success ?j then 100 else 10))\<rparr>) (user s)"
    unfolding v by (simp add: addNote_def addXP_user)
  have a11: "actionPoints (fst (snd ?after)) = actionPoints s"
    and a12: "evidenceFound (fst (snd ?after)) = evidenceFound s"
    unfolding v by (simp_all add: addNote_def)
  show ?thesis
    unfolding Let_def
    apply (intro conjI)
    apply (rule a1)
    apply (simp add: judge_fields)
    apply (rule keywordHits_card)
    apply (simp add: judge_fields)
    apply (simp add: judge_fields requiredHits_div)
    apply (simp add: judge_fields)
    apply (simp add: success_def)
    apply (rule a8)
    apply (rule a9)
    apply (rule a10)
    apply (rule a11)
    apply (rule a12)
    done
qed


lemma handleAccusation_verdict_example:
  "fst (handleAccusation 9 ''s2'' ''  He owed MONEY and had a Debt '' (exampleState, Some exampleDB))
     = Verdict \<lparr>isCorrectSuspect = True, keywordHits = 2, requiredHits = 2,
                   isCorrectMotive = True\<rparr>
   \<and> actionPoints (fst (snd (handleAccusation 9 ''s2'' ''  He owed MONEY and had a Debt ''
        (exampleState, Some exampleDB)))) = 20"
proof -
  have h1: "''s2'' \<noteq> []" by simp
  have h2: "trim ''  He owed MONEY and had a Debt '' \<noteq> []"
    by (simp add: trim_def isSpace_def)
  have h3: "currentCase exampleState = Some exampleCase" by (simp add: exampleState_def)
  have j: "judge exampleCase ''s2'' ''he owed money and had a debt'' =
      \<lparr>isCorrectSuspect = True, keywordHits = 2, requiredHits = 2, isCorrectMotive = True\<rparr>"
    by (simp add: judge_def Let_def exampleCase_def requiredHits_div)
  have a: "actionPoints exampleState = 20" by (simp add: exampleState_def)
  note t = handleAccusation_verdict [OF h1 h2 h3 exampleCase_killer, of 9 "Some exampleDB",
      unfolded Let_def motive_lowered j]
  from t have "fst (handleAccusation 9 ''s2'' ''  He owed MONEY and had a Debt ''
      (exampleState, Some exampleDB)) = Verdict \<lparr>isCorrectSuspect = True, keywordHits = 2,
        requiredHits = 2, isCorrectMotive = True\<rparr>"
    by (elim conjE)
  moreover from t have "actionPoints (fst (snd (handleAccusation 9 ''s2''
      ''  He owed MONEY and had a Debt '' (exampleState, Some exampleDB)))) = 20"
    unfolding a by (elim conjE)
  ultimately show ?thesis by (rule conjI)
qed

text \<open>
  Claim C1. The keyword hits are to count the keywords that occur in the motive text
  without regard to letter case. The handler lower-cases the motive text and leaves the
  keywords as the case writes them. In a case whose only keyword is "Money", the
  accusation of the killer with the motive "Money" is judged against the text "money",
  in which "Money" does not occur: no hit where one is required, and the accusation
  fails, although keyword and motive are the same word.
\<close>

theorem handleAccusation_keyword_case:
  "includesStr (toLowerCase ''Money'') (toLowerCase ''Money'')
   \<and> motiveKeywords capitalCase = [''Money''] \<and> killerId capitalCase = ''s2''
   \<and> fst (handleAccusation 9 ''s2'' ''Money'' (capitalState, None))
       = Verdict \<lparr>isCorrectSuspect = True, keywordHits = 0, requiredHits = 1,
                     isCorrectMotive = False\<rparr>
   \<and> \<not> success \<lparr>isCorrectSuspect = True, keywordHits = 0, requiredHits = 1,
                     isCorrectMotive = False\<rparr>"
proof -
  have l: "toLowerCase ''Money'' = ''money''" by (simp add: toLowerCase_def lowerChar_def)
  have tr: "trim ''Money'' = ''Money''" by (simp add: trim_def isSpace_def)
  have h1: "''s2'' \<noteq> []" by simp
  have h2: "trim ''Money'' \<noteq> []" by (simp add: tr)
  have h3: "currentCase capitalState = Some capitalCase" by (simp add: capitalState_def)
  have half: "nat \<lceil>(1::real) / 2\<rceil> = Suc 0" by linarith
  have j: "judge capitalCase ''s2'' ''money'' =
      \<lparr>isCorrectSuspect = True, keywordHits = 0, requiredHits = 1, isCorrectMotive = False\<rparr>"
    by (simp add: judge_def Let_def capitalCase_def exampleCase_def half)
  have "fst (handleAccusation 9 ''s2'' ''Money'' (capitalState, None)) =
      Verdict (judge capitalCase ''s2'' (toLowerCase (trim ''Money'')))"
    by (simp add: handleAccusation_valid [OF h1 h2 h3 capitalCase_killer])
  then have v: "fst (handleAccusation 9 ''s2'' ''Money'' (capitalState, None)) =
      Verdict \<lparr>isCorrectSuspect = True, keywordHits = 0, requiredHits = 1,
                    isCorrectMotive = False\<rparr>"
    by (simp only: tr l j)
  have i: "includesStr (toLowerCase ''Money'') (toLowerCase ''Money'')" by (simp add: l)
  have k: "motiveKeywords capitalCase = [''Money'']" by (simp add: capitalCase_def)
  have d: "killerId capitalCase = ''s2''" by (simp add: capitalCase_def exampleCase_def)
  have f: "\<not> success \<lparr>isCorrectSuspect = True, keywordHits = 0, requiredHits = 1,
                     isCorrectMotive = False\<rparr>" by (simp add: success_def)
  from i k d v f show ?thesis by (intro conjI)
qed

section \<open>Claim C4: searching\<close>

lemma handleSearch_repeat:
  assumes "currentCase s = Some c"
    and "set (searchItems type c) \<subseteq> set (evidenceFound s)"
  shows "actionPoints (stateOf (handleSearch type s)) = actionPoints s"
    and "evidenceFound (stateOf (handleSearch type s)) = evidenceFound s"
proof -
  show "actionPoints (stateOf (handleSearch type s)) = actionPoints s"
  proof (cases "actionPoints s \<le> 0")
    case True
    then show ?thesis by (simp add: handleSearch_refused)
  next
    case False
    then have "actionPoints s > 0" by simp
    from handleSearch_nothing [OF this assms] show ?thesis by simp
  qed
  show "evidenceFound (stateOf (handleSearch type s)) = evidenceFound s"
  proof (cases "actionPoints s \<le> 0")
    case True
    then show ?thesis by (simp add: handleSearch_refused)
  next
    case False
    then have "actionPoints s > 0" by simp
    from handleSearch_nothing [OF this assms] show ?thesis by simp
  qed
qed

text \<open>
  Claim C4. With action points left and a current case, a search of the body or of the
  room takes the items of that list that are not yet in \<open>evidenceFound\<close>: as a set,
  the difference of the two. If there is none it adds the "no new evidence" note and
  leaves the action points and the evidence as they are; otherwise it takes exactly one
  action point and appends exactly those items, so that the evidence is the union.
  The same search repeated at once costs nothing and adds nothing.
\<close>

theorem handleSearch_cost_and_union:
  assumes points: "actionPoints s > 0" and cur: "currentCase s = Some c"
    and kind: "type = ''body'' \<or> type = ''room''"
  shows "let items = (if type = ''body'' then bodySearch (evidence c)
                      else roomSearch (evidence c));
             added = filter (\<lambda>item. item \<notin> set (evidenceFound s)) items;
             s' = stateOf (handleSearch type s);
             s'' = stateOf (handleSearch type s')
         in set added = set items - set (evidenceFound s)
          \<and> (added = [] \<longrightarrow>
                handleSearch type s = Returned (addNote ''evidence'' NoNewEvidence None s)
                \<and> actionPoints s' = actionPoints s \<and> evidenceFound s' = evidenceFound s)
          \<and> (added \<noteq> [] \<longrightarrow>
                actionPoints s' = actionPoints s - 1
                \<and> evidenceFound s' = evidenceFound s @ added
                \<and> set (evidenceFound s') = set (evidenceFound s) \<union> set items)
          \<and> actionPoints s'' = actionPoints s' \<and> evidenceFound s'' = evidenceFound s'"
proof -
  let ?items = "if type = ''body'' then bodySearch (evidence c) else roomSearch (evidence c)"
  let ?added = "filter (\<lambda>item. item \<notin> set (evidenceFound s)) ?items"
  let ?s' = "stateOf (handleSearch type s)"
  have items: "searchItems type c = ?items" using kind by (auto simp: searchItems_def)
  have diff: "set ?added = set ?items - set (evidenceFound s)" by auto
  have sub: "?added = [] \<longleftrightarrow> set ?items \<subseteq> set (evidenceFound s)"
    by (auto simp: filter_empty_conv)
  have none: "?added = [] \<longrightarrow>
      handleSearch type s = Returned (addNote ''evidence'' NoNewEvidence None s)
      \<and> actionPoints ?s' = actionPoints s \<and> evidenceFound ?s' = evidenceFound s"
  proof
    assume "?added = []"
    with sub items have "set (searchItems type c) \<subseteq> set (evidenceFound s)" by simp
    from handleSearch_nothing [OF points cur this]
    show "handleSearch type s = Returned (addNote ''evidence'' NoNewEvidence None s)
      \<and> actionPoints ?s' = actionPoints s \<and> evidenceFound ?s' = evidenceFound s" by simp
  qed
  have some: "?added \<noteq> [] \<longrightarrow>
      actionPoints ?s' = actionPoints s - 1 \<and> evidenceFound ?s' = evidenceFound s @ ?added
      \<and> set (evidenceFound ?s') = set (evidenceFound s) \<union> set ?items"
  proof
    assume "?added \<noteq> []"
    with sub items have n: "\<not> set (searchItems type c) \<subseteq> set (evidenceFound s)" by simp
    have ef: "evidenceFound ?s' = evidenceFound s @ ?added"
      using handleSearch_found(2) [OF points cur n] items by simp
    have "set (evidenceFound s @ ?added) = set (evidenceFound s) \<union> set ?items" by auto
    with ef handleSearch_found(1) [OF points cur n]
    show "actionPoints ?s' = actionPoints s - 1 \<and> evidenceFound ?s' = evidenceFound s @ ?added
      \<and> set (evidenceFound ?s') = set (evidenceFound s) \<union> set ?items" by simp
  qed
  have cur': "currentCase ?s' = Some c"
  proof (cases "?added = []")
    case True
    with none cur show ?thesis by simp
  next
    case False
    with sub items have "\<not> set (searchItems type c) \<subseteq> set (evidenceFound s)" by simp
    from handleSearch_found(3) [OF points cur this] cur show ?thesis by simp
  qed
  have covered: "set (searchItems type c) \<subseteq> set (evidenceFound ?s')"
  proof (cases "?added = []")
    case True
    with none sub items show ?thesis by simp
  next
    case False
    with some have "set (evidenceFound ?s') = set (evidenceFound s) \<union> set ?items" by blast
    then show ?thesis unfolding items by blast
  qed
  note rep = handleSearch_repeat [OF cur' covered]
  show ?thesis
    unfolding Let_def
    apply (intro conjI)
    apply (rule diff)
    apply (rule none)
    apply (rule some)
    apply (rule rep(1))
    apply (rule rep(2))
    done
qed

theorem handleSearch_cost_and_union_witness:
  "actionPoints (stateOf (handleSearch ''body'' exampleState)) = 19
   \<and> evidenceFound (stateOf (handleSearch ''body'' exampleState))
       = [''torn page'', ''open safe'', ''ink stain'']
   \<and> actionPoints (stateOf (handleSearch ''body'' (stateOf (handleSearch ''body'' exampleState)))) = 19
   \<and> evidenceFound (stateOf (handleSearch ''body'' (stateOf (handleSearch ''body'' exampleState))))
       = [''torn page'', ''open safe'', ''ink stain'']"
proof -
  have h1: "actionPoints exampleState > 0" by (simp add: exampleState_def)
  have h2: "currentCase exampleState = Some exampleCase" by (simp add: exampleState_def)
  have h3: "''body'' = ''body'' \<or> ''body'' = ''room''" by simp
  have a: "actionPoints exampleState = 20"
    and e: "evidenceFound exampleState = [''torn page'', ''open safe'']"
    by (simp_all add: exampleState_def)
  have b: "bodySearch (evidence exampleCase) = [''ink stain'', ''torn page'']"
    by (simp add: exampleCase_def)
  show ?thesis
    using handleSearch_cost_and_union [OF h1 h2 h3]
    unfolding Let_def a e b by simp
qed

section \<open>Claim C3: action points never go below zero\<close>

lemma handleUserMessage_refused:
  "actionPoints s \<le> 0 \<Longrightarrow> handleUserMessage input s = Returned s"
  by (simp add: handleUserMessage_def)

lemma exhaustedState_facts:
  "actionPoints exhaustedState = 0"
  "currentCase exhaustedState = Some exampleCase"
  by (simp_all add: exhaustedState_def exampleState_def)

text \<open>
  Claim C3. After \<open>startCase\<close>, and from any state whose action points are not
  negative, no sequence of operations makes the action points negative. At zero action
  points \<open>handleUserMessage\<close>, \<open>handleSearch\<close> and \<open>handleLab\<close> return the state
  as it is, while \<open>handleAccusation\<close> still gives the verdict of \<open>judge\<close>.
\<close>

theorem actionPoints_never_negative:
  "0 \<le> actionPoints (fst (run ops (stateOf (startCase caseId s), store)))
   \<and> (0 \<le> actionPoints z \<longrightarrow> 0 \<le> actionPoints (fst (run ops (z, store))))
   \<and> (actionPoints z = 0 \<longrightarrow>
         handleUserMessage input z = Returned z
         \<and> handleSearch type z = Returned z
         \<and> handleLab z = Returned z)
   \<and> (actionPoints z = 0 \<and> suspectId \<noteq> [] \<and> trim motiveInput \<noteq> []
        \<and> currentCase z = Some c
        \<and> find (\<lambda>item. suspect_id item = killerId c) (suspects c) = Some killer \<longrightarrow>
         fst (handleAccusation now suspectId motiveInput (z, store)) =
           Verdict (judge c suspectId (toLowerCase (trim motiveInput))))"
proof (intro conjI impI)
  show "0 \<le> actionPoints (fst (run ops (stateOf (startCase caseId s), store)))"
    by (rule run_points) simp
  show "0 \<le> actionPoints (fst (run ops (z, store)))" if "0 \<le> actionPoints z"
    by (rule run_points) (simp add: that)
  show "handleUserMessage input z = Returned z" if "actionPoints z = 0"
    using that by (simp add: handleUserMessage_refused)
  show "handleSearch type z = Returned z" if "actionPoints z = 0"
    using that by (simp add: handleSearch_refused)
  show "handleLab z = Returned z" if "actionPoints z = 0"
    using that by (simp add: handleLab_refused)
  show "fst (handleAccusation now suspectId motiveInput (z, store)) =
           Verdict (judge c suspectId (toLowerCase (trim motiveInput)))"
    if "actionPoints z = 0 \<and> suspectId \<noteq> [] \<and> trim motiveInput \<noteq> []
        \<and> currentCase z = Some c
        \<and> find (\<lambda>item. suspect_id item = killerId c) (suspects c) = Some killer"
    using that by (simp add: handleAccusation_valid)
qed

theorem actionPoints_never_negative_witness:
  "0 \<le> actionPoints (fst (run [(2, Search ''body''), (3, SendToLab), (4, LabTimerFires)]
          (stateOf (startCase ''c1'' initialState), None)))
   \<and> handleUserMessage ''Where were you?'' exhaustedState = Returned exhaustedState
   \<and> handleSearch ''room'' exhaustedState = Returned exhaustedState
   \<and> handleLab exhaustedState = Returned exhaustedState
   \<and> fst (handleAccusation 9 ''s2'' ''  He owed MONEY and had a Debt '' (exhaustedState, None))
       = Verdict \<lparr>isCorrectSuspect = True, keywordHits = 2, requiredHits = 2,
                     isCorrectMotive = True\<rparr>"
proof -
  have j: "judge exampleCase ''s2'' ''he owed money and had a debt'' =
      \<lparr>isCorrectSuspect = True, keywordHits = 2, requiredHits = 2, isCorrectMotive = True\<rparr>"
    by (simp add: judge_def Let_def exampleCase_def requiredHits_div)
  have h: "actionPoints exhaustedState = 0 \<and> ''s2'' \<noteq> []
      \<and> trim ''  He owed MONEY and had a Debt '' \<noteq> []
      \<and> currentCase exhaustedState = Some exampleCase
      \<and> find (\<lambda>item. suspect_id item = killerId exampleCase) (suspects exampleCase)
          = Some silentSuspect"
    by (simp add: exhaustedState_facts exampleCase_killer trim_def isSpace_def)
  note t = actionPoints_never_negative [of
      "[(2, Search ''body''), (3, SendToLab), (4, LabTimerFires)]" "''c1''" initialState None
      exhaustedState "''Where were you?''" "''room''" "''s2''" "''  He owed MONEY and had a Debt ''"
      exampleCase silentSuspect 9]
  from t have a: "0 \<le> actionPoints (fst (run [(2, Search ''body''), (3, SendToLab), (4, LabTimerFires)]
          (stateOf (startCase ''c1'' initialState), None)))" by (elim conjE)
  from t exhaustedState_facts(1)
  have b: "handleUserMessage ''Where were you?'' exhaustedState = Returned exhaustedState"
    and c: "handleSearch ''room'' exhaustedState = Returned exhaustedState"
    and d: "handleLab exhaustedState = Returned exhaustedState"
    by blast+
  from t h have "fst (handleAccusation 9 ''s2'' ''  He owed MONEY and had a Debt '' (exhaustedState, None))
      = Verdict (judge exampleCase ''s2'' (toLowerCase (trim ''  He owed MONEY and had a Debt '')))"
    by blast
  then have e: "fst (handleAccusation 9 ''s2'' ''  He owed MONEY and had a Debt '' (exhaustedState, None))
       = Verdict \<lparr>isCorrectSuspect = True, keywordHits = 2, requiredHits = 2,
                     isCorrectMotive = True\<rparr>"
    by (simp only: motive_lowered j)
  from a b c d e show ?thesis by (intro conjI)
qed

section \<open>Claim C5: the lab\<close>

lemma exampleState_lab:
  "actionPoints exampleState = 20" "labReady exampleState" "\<not> labProcessing exampleState"
  "labTimers exampleState = 0" "currentCase exampleState = Some exampleCase"
  "evidenceFound exampleState = [''torn page'', ''open safe'']"
  by (simp_all add: exampleState_def)

text \<open>
  Claim C5. The call of \<open>handleLab\<close> that starts the lab (action points left, lab
  ready, not processing) takes exactly one action point and sets \<open>labProcessing\<close>;
  a call while the lab is processing, or after \<open>labReady\<close> has become false, returns
  the state as it is. When the timer runs in a current case, \<open>labProcessing\<close> and
  \<open>labReady\<close> are false afterwards and the lab clue is in the evidence, appended
  unless it was there already. Over any sequence of operations within one case, the
  \<open>SendToLab\<close> steps take at most one action point in total and the lab completions
  add at most one item, however often the lab is asked for.
\<close>

theorem handleLab_once_per_case:
  assumes within: "withinCase ops"
  shows "(actionPoints s > 0 \<and> labReady s \<and> \<not> labProcessing s \<longrightarrow>
            actionPoints (stateOf (handleLab s)) = actionPoints s - 1
            \<and> labProcessing (stateOf (handleLab s))
            \<and> labTimers (stateOf (handleLab s)) = labTimers s + 1
            \<and> evidenceFound (stateOf (handleLab s)) = evidenceFound s)
       \<and> (labProcessing s \<or> \<not> labReady s \<longrightarrow> handleLab s = Returned s)
       \<and> (labTimers s > 0 \<and> currentCase s = Some c \<longrightarrow>
            \<not> labProcessing (stateOf (labComplete s))
            \<and> \<not> labReady (stateOf (labComplete s))
            \<and> labClue (evidence c) \<in> set (evidenceFound (stateOf (labComplete s)))
            \<and> evidenceFound (stateOf (labComplete s)) =
                 (if labClue (evidence c) \<in> set (evidenceFound s) then evidenceFound s
                  else evidenceFound s @ [labClue (evidence c)]))
       \<and> 0 \<le> labCost ops (s, store) \<and> labCost ops (s, store) \<le> 1
       \<and> labAdditions ops (s, store) \<le> 1
       \<and> (labClosed s \<longrightarrow> labCost ops (s, store) = 0)
       \<and> (clueFound s \<longrightarrow> labAdditions ops (s, store) = 0)"
proof (intro conjI impI)
  assume a: "actionPoints s > 0 \<and> labReady s \<and> \<not> labProcessing s"
  then show "actionPoints (stateOf (handleLab s)) = actionPoints s - 1"
    and "labProcessing (stateOf (handleLab s))"
    and "labTimers (stateOf (handleLab s)) = labTimers s + 1"
    by (simp_all add: handleLab_started)
  show "evidenceFound (stateOf (handleLab s)) = evidenceFound s" by simp
next
  assume "labProcessing s \<or> \<not> labReady s"
  then show "handleLab s = Returned s" by (auto simp: handleLab_def)
next
  assume a: "labTimers s > 0 \<and> currentCase s = Some c"
  then show "\<not> labProcessing (stateOf (labComplete s))"
    and "\<not> labReady (stateOf (labComplete s))"
    by (simp_all add: labComplete_flags)
  from a show "evidenceFound (stateOf (labComplete s)) =
      (if labClue (evidence c) \<in> set (evidenceFound s) then evidenceFound s
       else evidenceFound s @ [labClue (evidence c)])"
    by (simp add: labComplete_evidence)
  then show "labClue (evidence c) \<in> set (evidenceFound (stateOf (labComplete s)))"
    by simp
next
  from labCost_bounds [OF within, of "(s, store)"]
  show "0 \<le> labCost ops (s, store)" and "labCost ops (s, store) \<le> 1" by simp_all
  show "labAdditions ops (s, store) \<le> 1" using within by (rule labAdditions_bound)
next
  assume "labClosed s"
  then show "labCost ops (s, store) = 0" using within by (simp add: labCost_closed)
next
  assume "clueFound s"
  then show "labAdditions ops (s, store) = 0" using within by (simp add: labAdditions_found)
qed


theorem handleLab_once_per_case_witness:
  "withinCase [(1, SendToLab), (2, SendToLab), (3, LabTimerFires), (4, SendToLab)]
   \<and> labCost [(1, SendToLab), (2, SendToLab), (3, LabTimerFires), (4, SendToLab)]
         (exampleState, None) \<le> 1
   \<and> labAdditions [(1, SendToLab), (2, SendToLab), (3, LabTimerFires), (4, SendToLab)]
         (exampleState, None) \<le> 1
   \<and> actionPoints (stateOf (handleLab exampleState)) = 19
   \<and> labProcessing (stateOf (handleLab exampleState))
   \<and> handleLab (stateOf (handleLab exampleState)) = Returned (stateOf (handleLab exampleState))
   \<and> evidenceFound (stateOf (labComplete (stateOf (handleLab exampleState))))
       = [''torn page'', ''open safe'', ''fingerprint on the safe'']
   \<and> \<not> labReady (stateOf (labComplete (stateOf (handleLab exampleState))))"
proof -
  let ?ops = "[(1, SendToLab), (2, SendToLab), (3, LabTimerFires), (4, SendToLab)]"
  let ?s1 = "stateOf (handleLab exampleState)"
  have w: "withinCase ?ops" by (simp add: withinCase_def)
  note t0 = handleLab_once_per_case [OF w, of exampleState exampleCase None]
  note start0 = t0 [THEN conjunct1]
  note cost = t0 [THEN conjunct2, THEN conjunct2, THEN conjunct2, THEN conjunct2, THEN conjunct1]
  note adds = t0 [THEN conjunct2, THEN conjunct2, THEN conjunct2, THEN conjunct2,
      THEN conjunct2, THEN conjunct1]
  from start0 exampleState_lab have p: "actionPoints ?s1 = 19" and q: "labProcessing ?s1"
    and tm: "labTimers ?s1 = 1" and ef: "evidenceFound ?s1 = [''torn page'', ''open safe'']"
    by simp_all
  have cc: "currentCase ?s1 = Some exampleCase" by (simp add: exampleState_lab)
  note t1 = handleLab_once_per_case [OF w, of ?s1 exampleCase None]
  note refuse1 = t1 [THEN conjunct2, THEN conjunct1]
  note done1 = t1 [THEN conjunct2, THEN conjunct2, THEN conjunct1]
  from refuse1 q have r: "handleLab ?s1 = Returned ?s1" by blast
  have clue: "labClue (evidence exampleCase) = ''fingerprint on the safe''"
    by (simp add: exampleCase_def)
  from done1 tm cc have "evidenceFound (stateOf (labComplete ?s1)) =
      (if labClue (evidence exampleCase) \<in> set (evidenceFound ?s1) then evidenceFound ?s1
       else evidenceFound ?s1 @ [labClue (evidence exampleCase)])"
    and nr: "\<not> labReady (stateOf (labComplete ?s1))" by simp_all
  then have e: "evidenceFound (stateOf (labComplete ?s1))
       = [''torn page'', ''open safe'', ''fingerprint on the safe'']"
    by (simp add: exampleState_lab clue)
  from w cost adds p q r e nr show ?thesis by (intro conjI)
qed

section \<open>Claim C2: the evidence found\<close>

lemma exampleCase_distinct: "distinctEvidence exampleCase"
  by (simp add: distinctEvidence_def exampleCase_def)

text \<open>
  Claim C2, as amended. Every operation other than \<open>startCase\<close> extends the list of
  evidence found: the list before is a prefix of the list after, over single steps and
  over sequences. \<open>startCase\<close> replaces the list by the case's initial list. When
  the initial, body and room lists of the active cases and of the current case have no
  repeated entry and the evidence found has none, then it has none in any state reached
  by any sequence of operations, \<open>startCase\<close> included, and none right after seeding.
\<close>

theorem evidenceFound_grows_without_duplicates:
  assumes found: "distinct (evidenceFound s)"
    and active: "\<forall>c\<in>set (activeCases s). distinctEvidence c"
    and current: "\<forall>c. currentCase s = Some c \<longrightarrow> distinctEvidence c"
  shows "distinct (evidenceFound (fst (run ops (s, store))))
       \<and> (\<forall>c. find (\<lambda>item. case_id item = caseId) (activeCases s) = Some c \<longrightarrow>
              evidenceFound (stateOf (startCase caseId s)) = initial (evidence c)
              \<and> distinct (evidenceFound (stateOf (startCase caseId s))))
       \<and> (\<forall>t z. \<not> isStartCase (snd t) \<longrightarrow>
              prefix (evidenceFound (fst z)) (evidenceFound (fst (step t z))))
       \<and> (\<forall>z. withinCase ops \<longrightarrow>
              prefix (evidenceFound (fst z)) (evidenceFound (fst (run ops z)))
              \<and> set (evidenceFound (fst z)) \<subseteq> set (evidenceFound (fst (run ops z)))
              \<and> length (evidenceFound (fst z)) \<le> length (evidenceFound (fst (run ops z))))"
proof -
  from found active current have inv: "evidenceInvariant s"
    by (auto simp: evidenceInvariant_def list_all_iff split: option.splits)
  then have "evidenceInvariant (fst (run ops (s, store)))"
    by (simp add: run_invariant)
  then have a: "distinct (evidenceFound (fst (run ops (s, store))))"
    by (simp add: evidenceInvariant_def)
  have b: "\<forall>c. find (\<lambda>item. case_id item = caseId) (activeCases s) = Some c \<longrightarrow>
              evidenceFound (stateOf (startCase caseId s)) = initial (evidence c)
              \<and> distinct (evidenceFound (stateOf (startCase caseId s)))"
  proof (intro allI impI)
    fix c assume f: "find (\<lambda>item. case_id item = caseId) (activeCases s) = Some c"
    from startCase_invariant [OF inv, of caseId]
    have "distinct (evidenceFound (stateOf (startCase caseId s)))"
      by (simp add: evidenceInvariant_def)
    with startCase_found(1) [OF f]
    show "evidenceFound (stateOf (startCase caseId s)) = initial (evidence c)
              \<and> distinct (evidenceFound (stateOf (startCase caseId s)))" by simp
  qed
  have c: "\<forall>t z. \<not> isStartCase (snd t) \<longrightarrow>
              prefix (evidenceFound (fst z)) (evidenceFound (fst (step t z)))"
    by (simp add: step_evidence_prefix)
  have d: "\<forall>z. withinCase ops \<longrightarrow>
              prefix (evidenceFound (fst z)) (evidenceFound (fst (run ops z)))
              \<and> set (evidenceFound (fst z)) \<subseteq> set (evidenceFound (fst (run ops z)))
              \<and> length (evidenceFound (fst z)) \<le> length (evidenceFound (fst (run ops z)))"
  proof (intro allI impI)
    fix z assume "withinCase ops"
    then have p: "prefix (evidenceFound (fst z)) (evidenceFound (fst (run ops z)))"
      by (rule run_evidence_prefix)
    from p set_mono_prefix [OF p] prefix_length_le [OF p]
    show "prefix (evidenceFound (fst z)) (evidenceFound (fst (run ops z)))
              \<and> set (evidenceFound (fst z)) \<subseteq> set (evidenceFound (fst (run ops z)))
              \<and> length (evidenceFound (fst z)) \<le> length (evidenceFound (fst (run ops z)))"
      by (intro conjI)
  qed
  from a b c d show ?thesis by (intro conjI)
qed

theorem evidenceFound_grows_without_duplicates_witness:
  "distinct (evidenceFound (fst (run
      [(1, StartCase ''c1''), (2, Search ''body''), (3, SendToLab), (4, LabTimerFires),
       (5, Search ''room''), (6, Search ''body'')] (initialState, None))))
   \<and> evidenceFound (stateOf (startCase ''c1'' initialState)) = [''torn page'', ''open safe'']"
proof -
  have h1: "distinct (evidenceFound initialState)" by (simp add: initialState_def)
  have h2: "\<forall>c\<in>set (activeCases initialState). distinctEvidence c"
    by (simp add: initialState_def exampleCase_distinct)
  have h3: "\<forall>c. currentCase initialState = Some c \<longrightarrow> distinctEvidence c"
    by (simp add: initialState_def)
  have f: "find (\<lambda>item. case_id item = ''c1'') (activeCases initialState) = Some exampleCase"
    by (simp add: initialState_def exampleCase_def)
  have i: "initial (evidence exampleCase) = [''torn page'', ''open safe'']"
    by (simp add: exampleCase_def)
  note t = evidenceFound_grows_without_duplicates [OF h1 h2 h3, of
      "[(1, StartCase ''c1''), (2, Search ''body''), (3, SendToLab), (4, LabTimerFires),
        (5, Search ''room''), (6, Search ''body'')]" None "''c1''"]
  note a = t [THEN conjunct1]
  note b = t [THEN conjunct2, THEN conjunct1]
  from b f i have "evidenceFound (stateOf (startCase ''c1'' initialState))
      = [''torn page'', ''open safe'']" by simp
  with a show ?thesis by (rule conjI)
qed

text \<open>
  The claim as first stated fails twice: an initial list with a repeated entry is copied
  as it is, and a \<open>startCase\<close> after a search drops what the search found.
\<close>

theorem evidenceFound_duplicates_counterexample:
  "evidenceFound (fst (run [(1, StartCase ''c2'')] (duplicateState, None)))
     = [''torn page'', ''torn page'']
   \<and> \<not> distinct (evidenceFound (fst (run [(1, StartCase ''c2'')] (duplicateState, None))))
   \<and> evidenceFound (fst (run [(1, StartCase ''c1''), (2, Search ''body'')] (initialState, None)))
     = [''torn page'', ''open safe'', ''ink stain'']
   \<and> evidenceFound (fst (run [(1, StartCase ''c1''), (2, Search ''body''), (3, StartCase ''c1'')]
        (initialState, None)))
     = [''torn page'', ''open safe'']"
proof -
  have f2: "find (\<lambda>item. case_id item = ''c2'') (activeCases duplicateState) = Some duplicateCase"
    by (simp add: duplicateState_def initialState_def duplicateCase_def)
  have i2: "initial (evidence duplicateCase) = [''torn page'', ''torn page'']"
    by (simp add: duplicateCase_def)
  have a: "evidenceFound (fst (run [(1, StartCase ''c2'')] (duplicateState, None)))
     = [''torn page'', ''torn page'']"
    by (simp add: run_def startCase_found(1) [OF f2] i2)
  have f1: "find (\<lambda>item. case_id item = ''c1'') (activeCases z) = Some exampleCase"
    if "activeCases z = [exampleCase]" for z
    using that by (simp add: exampleCase_def)
  let ?s1 = "stateOf (startCase ''c1'' initialState)"
  have ac: "activeCases initialState = [exampleCase]" by (simp add: initialState_def)
  have e1: "evidenceFound ?s1 = [''torn page'', ''open safe'']"
    and c1: "currentCase ?s1 = Some exampleCase"
    using startCase_found [OF f1 [OF ac]] by (simp_all add: exampleCase_def)
  have p1: "actionPoints ?s1 = 20" by simp
  let ?s2 = "stateOf (handleSearch ''body'' ?s1)"
  have e2: "evidenceFound ?s2 = [''torn page'', ''open safe'', ''ink stain'']"
    by (simp add: handleSearch_evidence p1 c1 e1 searchItems_def exampleCase_def)
  have ac2: "activeCases ?s2 = [exampleCase]"
    using step_activeCases [of "(1, StartCase ''c1'')" "(initialState, None)"]
    by (simp add: ac)
  have e3: "evidenceFound (stateOf (startCase ''c1'' ?s2)) = [''torn page'', ''open safe'']"
    using startCase_found(1) [OF f1 [OF ac2]] by (simp add: exampleCase_def)
  have b: "evidenceFound (fst (run [(1, StartCase ''c1''), (2, Search ''body'')] (initialState, None)))
     = [''torn page'', ''open safe'', ''ink stain'']"
    by (simp add: run_def e2)
  have c: "evidenceFound (fst (run [(1, StartCase ''c1''), (2, Search ''body''), (3, StartCase ''c1'')]
        (initialState, None))) = [''torn page'', ''open safe'']"
    by (simp add: run_def e3)
  from a have a': "\<not> distinct (evidenceFound (fst (run [(1, StartCase ''c2'')] (duplicateState, None))))"
    by simp
  from a a' b c show ?thesis by (intro conjI)
qed

section \<open>Claim C9: import\<close>









end
